theory Spec2Isabelle
  imports Complex_Main "HOL-Library.AList" "HOL-Library.Code_Target_Nat"
begin

section \<open>JavaScript values and texts\<close>

text \<open>
  A text is a JavaScript string: a sequence of 16-bit code units. A code unit is modelled
  as a natural number (below 65536 in every text of the runtime; nothing in the model uses
  the bound), and \<open>length\<close> is the \<^verbatim>\<open>.length\<close> of the source. The text of a literal of
  the program is written \<open>js ''...''\<close>.

  A value read from JSON is a \<open>json\<close>. \<open>JNumber m e\<close> stands for the number written
  as \<open>m\<close> times ten to the \<open>e\<close>; the runtime rounds it to a double, which matters here
  only for whether the number is zero (see \<open>rounds_to_zero\<close>). An object keeps one
  entry per key, a later duplicate replacing the value of the earlier one, in the order of
  first insertion (the runtime lists keys that are array indices first; the program only
  looks keys up, so it does not observe the order).
  A property that is not there (\<^verbatim>\<open>undefined\<close>) is \<open>None\<close> of \<open>json option\<close>.
\<close>

type_synonym jstring = "nat list"

datatype json =
    JNull
  | JBool bool
  | JNumber int int
  | JString jstring
  | JArray "json list"
  | JObject "(jstring \<times> json) list"

definition code :: "char \<Rightarrow> nat" where
  \<comment> \<open>the code unit of a character of a literal\<close>
  "code c = of_char c"

definition js :: "char list \<Rightarrow> jstring" where
  "js s = map code s"

lemma code_eq_iff [simp]: "code a = code b \<longleftrightarrow> a = b"
  by (simp add: code_def)

lemma js_simps [simp]: "js [] = []" "js (c # cs) = code c # js cs"
  by (simp_all add: js_def)

definition rounds_to_zero :: "int \<Rightarrow> int \<Rightarrow> bool" where
  \<comment> \<open>\<open>m\<close> times ten to the \<open>e\<close> is at most two to the -1075, half the least positive double.\<close>
  "rounds_to_zero m e =
     (if 0 \<le> e then m = 0 else \<bar>m\<bar> * 2 ^ 1075 \<le> 10 ^ nat (- e))"

fun truthy :: "json \<Rightarrow> bool" where
  "truthy JNull = False"
| "truthy (JBool b) = b"
| "truthy (JNumber m e) = (\<not> rounds_to_zero m e)"
| "truthy (JString s) = (s \<noteq> [])"
| "truthy (JArray xs) = True"
| "truthy (JObject kvs) = True"

definition js_or :: "json option \<Rightarrow> json \<Rightarrow> json" where
  \<comment> \<open>\<^verbatim>\<open>a || b\<close>, where \<open>a\<close> may be undefined\<close>
  "js_or a b = (case a of None \<Rightarrow> b | Some v \<Rightarrow> if truthy v then v else b)"

definition js_get :: "json \<Rightarrow> jstring \<Rightarrow> json option" where
  \<comment> \<open>\<^verbatim>\<open>v.key\<close> for a key that is no built-in property of strings, arrays or numbers;
      \<open>v\<close> is neither null nor undefined\<close>
  "js_get v k = (case v of JObject kvs \<Rightarrow> map_of kvs k | _ \<Rightarrow> None)"

definition js_first :: "json \<Rightarrow> json option" where
  \<comment> \<open>\<^verbatim>\<open>v[0]\<close>\<close>
  "js_first v =
     (case v of
        JArray xs \<Rightarrow> (case xs of [] \<Rightarrow> None | x # _ \<Rightarrow> Some x)
      | JString s \<Rightarrow> (case s of [] \<Rightarrow> None | c # _ \<Rightarrow> Some (JString [c]))
      | JObject kvs \<Rightarrow> map_of kvs (js ''0'')
      | _ \<Rightarrow> None)"

definition chain :: "json option \<Rightarrow> (json \<Rightarrow> json option) \<Rightarrow> json option" where
  \<comment> \<open>optional chaining \<^verbatim>\<open>v?.p\<close>: undefined when \<open>v\<close> is undefined or null\<close>
  "chain v f = (case v of None \<Rightarrow> None | Some JNull \<Rightarrow> None | Some x \<Rightarrow> f x)"

subsection \<open>Text primitives of the runtime\<close>

definition is_js_space :: "nat \<Rightarrow> bool" where
  \<comment> \<open>what \<^verbatim>\<open>trim\<close> removes: the white space and the line terminators of the language\<close>
  "is_js_space c =
     (c \<in> {0x09, 0x0A, 0x0B, 0x0C, 0x0D, 0x20, 0xA0, 0x1680, 0x2028, 0x2029, 0x202F,
            0x205F, 0x3000, 0xFEFF}
      \<or> (0x2000 \<le> c \<and> c \<le> 0x200A))"

definition trim :: "jstring \<Rightarrow> jstring" where
  "trim s = rev (dropWhile is_js_space (rev (dropWhile is_js_space s)))"

fun split_on :: "nat \<Rightarrow> jstring \<Rightarrow> jstring list" where
  \<comment> \<open>\<^verbatim>\<open>s.split(d)\<close> for a separator of one character\<close>
  "split_on d [] = [[]]"
| "split_on d (c # cs) =
     (if c = d then [] # split_on d cs
      else (case split_on d cs of [] \<Rightarrow> [[c]] | l # ls \<Rightarrow> (c # l) # ls))"

fun strip_prefix :: "jstring \<Rightarrow> jstring \<Rightarrow> jstring option" where
  "strip_prefix [] s = Some s"
| "strip_prefix (p # ps) [] = None"
| "strip_prefix (p # ps) (c # cs) = (if p = c then strip_prefix ps cs else None)"

definition starts_with :: "jstring \<Rightarrow> jstring \<Rightarrow> bool" where
  \<comment> \<open>\<^verbatim>\<open>s.startsWith(p)\<close>\<close>
  "starts_with s p = (strip_prefix p s \<noteq> None)"

definition is_digit :: "nat \<Rightarrow> bool" where
  "is_digit c = (48 \<le> c \<and> c \<le> 57)"

definition is_word :: "nat \<Rightarrow> bool" where
  \<comment> \<open>the class \<^verbatim>\<open>\w\<close>\<close>
  "is_word c =
     (is_digit c \<or> (65 \<le> c \<and> c \<le> 90) \<or> (97 \<le> c \<and> c \<le> 122)
      \<or> c = code (CHR ''_''))"

definition digit_char :: "nat \<Rightarrow> nat" where
  "digit_char d = 48 + d"

function digits :: "nat \<Rightarrow> jstring" where
  \<comment> \<open>the decimal digits of a number\<close>
  "digits n = (if n < 10 then [digit_char n] else digits (n div 10) @ [digit_char (n mod 10)])"
  by pat_completeness auto
termination
  by (relation "measure (\<lambda>n. n)") auto

definition show_nat :: "nat \<Rightarrow> jstring" where
  \<comment> \<open>\<^verbatim>\<open>String(n)\<close> for a natural number below ten to the 21\<close>
  "show_nat n = digits n"

subsection \<open>\<^verbatim>\<open>JSON.parse\<close>\<close>

text \<open>
  The runtime's parser, in two passes: the text is cut into tokens, and the tokens are
  read by a machine with a stack of the containers that are still open. \<open>None\<close> is the
  \<^verbatim>\<open>SyntaxError\<close> that \<^verbatim>\<open>JSON.parse\<close> throws.
\<close>

datatype token =
    TLBrace | TRBrace | TLBrack | TRBrack | TColon | TComma
  | TStr jstring
  | TNum int int
  | TTrue | TFalse | TNull

definition is_json_ws :: "nat \<Rightarrow> bool" where
  "is_json_ws c = (c \<in> {0x20, 0x09, 0x0A, 0x0D})"

definition unescape :: "nat \<Rightarrow> nat option" where
  "unescape e =
     (if e = code (CHR 0x22) then Some (code (CHR 0x22))
      else if e = code (CHR 0x5C) then Some (code (CHR 0x5C))
      else if e = code (CHR ''/'') then Some (code (CHR ''/''))
      else if e = code (CHR ''b'') then Some (code (CHR 0x08))
      else if e = code (CHR ''f'') then Some (code (CHR 0x0C))
      else if e = code (CHR ''n'') then Some (code (CHR 0x0A))
      else if e = code (CHR ''r'') then Some (code (CHR 0x0D))
      else if e = code (CHR ''t'') then Some (code (CHR 0x09))
      else None)"

definition hex_val :: "nat \<Rightarrow> nat option" where
  "hex_val c =
     (if is_digit c then Some (c - 48)
      else if 65 \<le> c \<and> c \<le> 70 then Some (c - 55)
      else if 97 \<le> c \<and> c \<le> 102 then Some (c - 87)
      else None)"

fun hex4 :: "jstring \<Rightarrow> nat option" where
  "hex4 [a, b, c, d] =
     (case (hex_val a, hex_val b, hex_val c, hex_val d) of
        (Some x, Some y, Some z, Some w) \<Rightarrow> Some (((x * 16 + y) * 16 + z) * 16 + w)
      | _ \<Rightarrow> None)"
| "hex4 _ = None"

fun read_string :: "jstring \<Rightarrow> jstring \<Rightarrow> (jstring \<times> jstring) option" where
  \<comment> \<open>reads a string after its opening quote: the code units read so far (reversed), the
      input; gives the string and the input after the closing quote. A \<^verbatim>\<open>\u\<close> escape
      stands for the code unit that its four hexadecimal digits name.\<close>
  "read_string acc [] = None"
| "read_string acc (c # cs) =
     (if c = code (CHR 0x22) then Some (rev acc, cs)
      else if c = code (CHR 0x5C) then
        (case cs of
           [] \<Rightarrow> None
         | e # r \<Rightarrow>
             if e = code (CHR ''u'') then
               (case hex4 (take 4 r) of
                  None \<Rightarrow> None
                | Some n \<Rightarrow> read_string (n # acc) (drop 4 r))
             else
               (case unescape e of
                  None \<Rightarrow> None
                | Some d \<Rightarrow> read_string (d # acc) r))
      else if c < 32 then None
      else read_string (c # acc) cs)"

definition digits_val :: "jstring \<Rightarrow> nat" where
  "digits_val ds = foldl (\<lambda>n c. 10 * n + (c - 48)) 0 ds"

definition number_int_part :: "jstring \<Rightarrow> (jstring \<times> jstring) option" where
  "number_int_part s =
     (let ds = takeWhile is_digit s
      in if ds = [] \<or> (1 < length ds \<and> hd ds = code (CHR ''0'')) then None
         else Some (ds, dropWhile is_digit s))"

definition number_frac_part :: "jstring \<Rightarrow> (jstring \<times> jstring) option" where
  "number_frac_part s =
     (case s of
        [] \<Rightarrow> Some ([], [])
      | c # r \<Rightarrow>
          if c = code (CHR ''.'') then
            (let ds = takeWhile is_digit r
             in if ds = [] then None else Some (ds, dropWhile is_digit r))
          else Some ([], s))"

definition number_exp_part :: "jstring \<Rightarrow> int option" where
  "number_exp_part s =
     (case s of
        [] \<Rightarrow> Some 0
      | c # r \<Rightarrow>
          if c = code (CHR ''e'') \<or> c = code (CHR ''E'') then
            (let neg = (case r of [] \<Rightarrow> False | d # _ \<Rightarrow> d = code (CHR ''-''));
                 ds = (case r of [] \<Rightarrow> []
                       | d # r' \<Rightarrow> if d = code (CHR ''-'') \<or> d = code (CHR ''+'') then r' else r)
             in if ds \<noteq> [] \<and> list_all is_digit ds
                then Some (if neg then - int (digits_val ds) else int (digits_val ds))
                else None)
          else None)"

definition parse_number :: "jstring \<Rightarrow> (int \<times> int) option" where
  "parse_number s =
     (let neg = (case s of [] \<Rightarrow> False | c # _ \<Rightarrow> c = code (CHR ''-''));
          s1 = (if neg then tl s else s)
      in case number_int_part s1 of
           None \<Rightarrow> None
         | Some (ip, s2) \<Rightarrow>
             (case number_frac_part s2 of
                None \<Rightarrow> None
              | Some (fp, s3) \<Rightarrow>
                  (case number_exp_part s3 of
                     None \<Rightarrow> None
                   | Some ex \<Rightarrow>
                       Some ((if neg then - int (digits_val (ip @ fp))
                              else int (digits_val (ip @ fp))),
                             ex - int (length fp)))))"

definition is_number_char :: "nat \<Rightarrow> bool" where
  "is_number_char c = (is_digit c \<or> c \<in> set (js ''+-.eE''))"

lemma read_string_shorter:
  "read_string acc cs = Some (s, r) \<Longrightarrow> length r < length cs"
proof (induction acc cs rule: read_string.induct)
  case (1 acc)
  then show ?case by simp
next
  case (2 acc c cs)
  show ?case
  proof (cases "c = code (CHR 0x22)")
    case True
    with "2.prems" show ?thesis by simp
  next
    case quote: False
    show ?thesis
    proof (cases "c = code (CHR 0x5C)")
      case True
      show ?thesis
      proof (cases cs)
        case Nil
        with "2.prems" quote True show ?thesis by simp
      next
        case (Cons e r')
        show ?thesis
        proof (cases "e = code (CHR ''u'')")
          case u: True
          then obtain n where n: "hex4 (take 4 r') = Some n"
            and rec: "read_string (n # acc) (drop 4 r') = Some (s, r)"
            using "2.prems" quote True Cons by (simp split: option.splits)
          from "2.IH"(1) [OF quote True Cons u n rec] Cons show ?thesis by simp
        next
          case e: False
          then obtain d where d: "unescape e = Some d"
            and rec: "read_string (d # acc) r' = Some (s, r)"
            using "2.prems" quote True Cons by (simp split: option.splits)
          from "2.IH"(2) [OF quote True Cons e d rec] Cons show ?thesis by simp
        qed
      qed
    next
      case False
      then have ok: "\<not> c < 32" and rec: "read_string (c # acc) cs = Some (s, r)"
        using "2.prems" quote by (simp_all split: if_splits)
      from "2.IH"(3) [OF quote False ok rec] show ?thesis by simp
    qed
  qed
qed

definition next_token :: "nat \<Rightarrow> jstring \<Rightarrow> (token option \<times> jstring) option" where
  \<comment> \<open>what starts at character \<open>c\<close>, followed by \<open>cs\<close>: white space (no token) or one token,
      and the input after it\<close>
  "next_token c cs =
     (if is_json_ws c then Some (None, cs)
      else if c = code (CHR ''{'') then Some (Some TLBrace, cs)
      else if c = code (CHR ''}'') then Some (Some TRBrace, cs)
      else if c = code (CHR ''['') then Some (Some TLBrack, cs)
      else if c = code (CHR '']'') then Some (Some TRBrack, cs)
      else if c = code (CHR '':'') then Some (Some TColon, cs)
      else if c = code (CHR '','') then Some (Some TComma, cs)
      else if c = code (CHR 0x22) then
        (case read_string [] cs of
           None \<Rightarrow> None
         | Some (s, r) \<Rightarrow> Some (Some (TStr s), r))
      else if c = code (CHR ''-'') \<or> is_digit c then
        (case parse_number (c # takeWhile is_number_char cs) of
           None \<Rightarrow> None
         | Some (m, e) \<Rightarrow> Some (Some (TNum m e), dropWhile is_number_char cs))
      else if c = code (CHR ''t'') \<and> take 3 cs = (js ''rue'') then Some (Some TTrue, drop 3 cs)
      else if c = code (CHR ''f'') \<and> take 4 cs = (js ''alse'') then Some (Some TFalse, drop 4 cs)
      else if c = code (CHR ''n'') \<and> take 3 cs = (js ''ull'') then Some (Some TNull, drop 3 cs)
      else None)"

lemma next_token_rest:
  assumes "next_token c cs = Some (t, rest)"
  shows "length rest \<le> length cs"
proof (cases "c = code (CHR 0x22)")
  case True
  then have "\<not> is_json_ws c" and "c \<notin> set (js ''{}[]:,'')"
    by (simp_all add: is_json_ws_def code_def del: code_eq_iff)
  with assms True obtain s where "read_string [] cs = Some (s, rest)"
    by (auto simp: next_token_def split: option.splits)
  then show ?thesis using read_string_shorter [of "[]" cs s rest] by simp
next
  case False
  have "length (dropWhile is_number_char cs) \<le> length cs" by (rule length_dropWhile_le)
  with assms False show ?thesis
    by (auto simp: next_token_def split: if_splits option.splits)
qed

function tokenize :: "jstring \<Rightarrow> token list option" where
  "tokenize [] = Some []"
| "tokenize (c # cs) =
     (case next_token c cs of
        None \<Rightarrow> None
      | Some (t, rest) \<Rightarrow>
          (case tokenize rest of
             None \<Rightarrow> None
           | Some ts \<Rightarrow> Some (case t of None \<Rightarrow> ts | Some tok \<Rightarrow> tok # ts)))"
  by pat_completeness auto
termination
  by (relation "measure length") (auto dest: next_token_rest simp: le_imp_less_Suc)

text \<open>
  The reading machine. A frame of the stack is an open array with its elements so far, or
  an open object with its members so far and the key whose value is being read.
\<close>

datatype frame =
    InArr "json list"
  | InObj "(jstring \<times> json) list" jstring

datatype mode =
    Value
  | ValueOrEnd
  | Key "(jstring \<times> json) list"
  | KeyOrEnd
  | Colon "(jstring \<times> json) list" jstring
  | Complete json

fun value_start :: "token \<Rightarrow> frame list \<Rightarrow> (mode \<times> frame list) option" where
  "value_start (TStr s) st = Some (Complete (JString s), st)"
| "value_start (TNum m e) st = Some (Complete (JNumber m e), st)"
| "value_start TTrue st = Some (Complete (JBool True), st)"
| "value_start TFalse st = Some (Complete (JBool False), st)"
| "value_start TNull st = Some (Complete JNull, st)"
| "value_start TLBrack st = Some (ValueOrEnd, InArr [] # st)"
| "value_start TLBrace st = Some (KeyOrEnd, st)"
| "value_start _ st = None"

fun step :: "mode \<times> frame list \<Rightarrow> token \<Rightarrow> (mode \<times> frame list) option" where
  "step (Value, st) t = value_start t st"
| "step (ValueOrEnd, InArr xs # st) TRBrack = Some (Complete (JArray xs), st)"
| "step (ValueOrEnd, st) t = value_start t st"
| "step (KeyOrEnd, st) TRBrace = Some (Complete (JObject []), st)"
| "step (KeyOrEnd, st) (TStr k) = Some (Colon [] k, st)"
| "step (Key kvs, st) (TStr k) = Some (Colon kvs k, st)"
| "step (Colon kvs k, st) TColon = Some (Value, InObj kvs k # st)"
| "step (Complete v, InArr xs # st) TComma = Some (Value, InArr (xs @ [v]) # st)"
| "step (Complete v, InArr xs # st) TRBrack = Some (Complete (JArray (xs @ [v])), st)"
| "step (Complete v, InObj kvs k # st) TComma = Some (Key (AList.update k v kvs), st)"
| "step (Complete v, InObj kvs k # st) TRBrace =
     Some (Complete (JObject (AList.update k v kvs)), st)"
| "step _ _ = None"

fun run :: "mode \<times> frame list \<Rightarrow> token list \<Rightarrow> json option" where
  "run (Complete v, []) [] = Some v"
| "run s [] = None"
| "run s (t # ts) = (case step s t of None \<Rightarrow> None | Some s' \<Rightarrow> run s' ts)"

definition JSON_parse :: "jstring \<Rightarrow> json option" where
  "JSON_parse text = (case tokenize text of None \<Rightarrow> None | Some ts \<Rightarrow> run (Value, []) ts)"

section \<open>The response normalizer\<close>

text \<open>
  A solution as the service builds it. Each field holds a JavaScript value: what the model's
  JSON carried, or a text of the program.
\<close>

record solution =
  previewText :: json
  answer :: json
  steps :: json
  explanation :: json

text \<open>
  Errors as values. \<open>Error m\<close> is \<^verbatim>\<open>new Error(m)\<close> of the program; \<open>SyntaxError\<close> and
  \<open>TypeError\<close> are raised by the runtime (the text that did not parse, the operation that
  failed); \<open>Rejected n m\<close> is a rejection of the outgoing request, with its name and message.
\<close>

datatype js_error =
    Error jstring
  | SyntaxError jstring
  | TypeError jstring
  | Rejected jstring jstring

fun error_name :: "js_error \<Rightarrow> jstring" where
  "error_name (Error m) = (js ''Error'')"
| "error_name (SyntaxError t) = (js ''SyntaxError'')"
| "error_name (TypeError t) = (js ''TypeError'')"
| "error_name (Rejected n m) = n"

definition match_braces :: "jstring \<Rightarrow> jstring option" where
  \<comment> \<open>\<^verbatim>\<open>text.match(/\{[\s\S]*\}/)\<close>: from the first opening brace to the last closing
      brace after it\<close>
  "match_braces text =
     (let r = dropWhile (\<lambda>c. c \<noteq> code (CHR ''{'')) text
      in if code (CHR ''}'') \<in> set r
         then Some (rev (dropWhile (\<lambda>c. c \<noteq> code (CHR ''}'')) (rev r)))
         else None)"

definition fallback_solution :: "jstring \<Rightarrow> jstring \<Rightarrow> solution" where
  "fallback_solution text fallbackPreview =
     \<lparr> previewText = js_or (Some (JString fallbackPreview)) (JString (js ''Problem'')),
       answer = JString (js ''See explanation below''),
       steps = JArray (map JString
                 (filter (\<lambda>l. 0 < length (trim l)) (split_on (code (CHR 0x0A)) text))),
       explanation = JString text \<rparr>"

definition parse_attempt :: "jstring \<Rightarrow> jstring \<Rightarrow> solution \<Rightarrow> js_error + solution option" where
  \<comment> \<open>the body of the \<^verbatim>\<open>try\<close> block; \<open>Inr None\<close> when it falls through\<close>
  "parse_attempt text fallbackPreview fallback =
     (case match_braces text of
        None \<Rightarrow> Inr None
      | Some m \<Rightarrow>
          (case JSON_parse m of
             None \<Rightarrow> Inl (SyntaxError m)
           | Some parsed \<Rightarrow>
               if parsed = JNull then Inl (TypeError (js ''parsed.previewText''))
               else Inr (Some
                 \<lparr> previewText =
                     js_or (js_get parsed (js ''previewText''))
                       (js_or (Some (JString fallbackPreview)) (JString (js ''Problem''))),
                   answer = js_or (js_get parsed (js ''answer'')) (answer fallback),
                   steps =
                     (case js_get parsed (js ''steps'') of
                        Some (JArray xs) \<Rightarrow> JArray xs
                      | _ \<Rightarrow> steps fallback),
                   explanation =
                     js_or (js_get parsed (js ''explanation'')) (explanation fallback) \<rparr>)))"

definition parseResponse :: "jstring \<Rightarrow> jstring \<Rightarrow> js_error + solution option" where
  \<comment> \<open>\<open>Inr None\<close> is the \<^verbatim>\<open>null\<close> of the source\<close>
  "parseResponse text fallbackPreview =
     (if text = [] then Inr None
      else
        (let fallback = fallback_solution text fallbackPreview
         in case parse_attempt text fallbackPreview fallback of
              Inl err \<Rightarrow> Inr (Some fallback)
            | Inr None \<Rightarrow> Inr (Some fallback)
            | Inr (Some s) \<Rightarrow> Inr (Some s)))"

section \<open>The inference service\<close>

text \<open>
  The provider is the environment: it answers each request with a rejection (a timeout
  is the rejection named \<^verbatim>\<open>AbortError\<close>) or with a status and a body. A request is
  identified by its model, its prompt (the fixed instructions around an image reference or
  around a problem text), its token budget and its timeout. Log lines are not modelled.
  Every function that calls the provider returns the requests it made, in order.
\<close>

datatype prompt = VisionPrompt jstring | TextPrompt jstring

record chat_request =
  model :: jstring
  messages :: prompt
  max_tokens :: nat
  timeout_ms :: nat

datatype fetch_outcome = Threw js_error | Responded nat jstring

type_synonym provider = "chat_request \<Rightarrow> fetch_outcome"

definition VISION_MODELS :: "jstring list" where
  "VISION_MODELS = [(js ''Qwen/Qwen2.5-VL-7B-Instruct'')]"

definition TEXT_LLM :: jstring where
  "TEXT_LLM = (js ''mistralai/Mistral-7B-Instruct-v0.2'')"

definition VISION_TIMEOUT_MS :: nat where
  "VISION_TIMEOUT_MS = 20000"

definition TEXT_TIMEOUT_MS :: nat where
  "TEXT_TIMEOUT_MS = 60000"

definition show_seconds :: "nat \<Rightarrow> jstring" where
  \<comment> \<open>the text of \<^verbatim>\<open>timeoutMs / 1000\<close>\<close>
  "show_seconds ms =
     show_nat (ms div 1000) @
     (if ms mod 1000 = 0 then []
      else code (CHR ''.'') #
        rev (dropWhile (\<lambda>c. c = code (CHR ''0''))
          (rev [digit_char (ms mod 1000 div 100), digit_char (ms mod 100 div 10),
                digit_char (ms mod 10)])))"

definition response_content :: "json \<Rightarrow> json" where
  \<comment> \<open>\<^verbatim>\<open>data?.choices?.[0]?.message?.content || ''\<close>\<close>
  "response_content data =
     js_or
       (chain (chain (chain (chain (Some data) (\<lambda>d. js_get d (js ''choices''))) js_first)
          (\<lambda>c. js_get c (js ''message''))) (\<lambda>m. js_get m (js ''content'')))
       (JString [])"

definition chatCompletion ::
  "provider \<Rightarrow> jstring \<Rightarrow> prompt \<Rightarrow> nat \<Rightarrow> nat \<Rightarrow> js_error + jstring" where
  "chatCompletion hf mdl msgs maxTokens timeoutMs =
     (case hf \<lparr> model = mdl, messages = msgs, max_tokens = maxTokens,
                timeout_ms = timeoutMs \<rparr> of
        Threw err \<Rightarrow>
          if error_name err = (js ''AbortError'')
          then Inl (Error ((js ''Request to '') @ mdl @ (js '' timed out ('') @
                           show_seconds timeoutMs @ (js ''s). Try again.'')))
          else Inl err
      | Responded status responseText \<Rightarrow>
          if \<not> (200 \<le> status \<and> status \<le> 299)
          then Inl (Error ((js ''HF API '') @ show_nat status @ (js '': '') @ take 200 responseText))
          else
            (case JSON_parse responseText of
               None \<Rightarrow> Inl (SyntaxError responseText)
             | Some data \<Rightarrow>
                 (case response_content data of
                    JString content \<Rightarrow> Inr content
                  | _ \<Rightarrow> Inl (TypeError (js ''content.substring'')))))"

definition image_url :: "jstring \<Rightarrow> jstring" where
  "image_url base64Image =
     (if starts_with base64Image (js ''data:'') then base64Image
      else (js ''data:image/png;base64,'') @ base64Image)"

fun try_models :: "provider \<Rightarrow> prompt \<Rightarrow> jstring list \<Rightarrow> solution option \<times> chat_request list" where
  \<comment> \<open>the loop over the vision models\<close>
  "try_models hf msgs [] = (None, [])"
| "try_models hf msgs (mdl # rest) =
     (let req = \<lparr> model = mdl, messages = msgs, max_tokens = 1200,
                   timeout_ms = VISION_TIMEOUT_MS \<rparr>;
          next_model = (case try_models hf msgs rest of (r, calls) \<Rightarrow> (r, req # calls))
      in case chatCompletion hf mdl msgs 1200 VISION_TIMEOUT_MS of
           Inl err \<Rightarrow> next_model
         | Inr content \<Rightarrow>
             if content \<noteq> [] \<and> 10 < length content
             then (case parseResponse content [] of
                     Inl err \<Rightarrow> next_model
                   | Inr r \<Rightarrow> (r, [req]))
             else next_model)"

definition tryVisionSolve :: "provider \<Rightarrow> jstring \<Rightarrow> solution option \<times> chat_request list" where
  "tryVisionSolve hf base64Image =
     try_models hf (VisionPrompt (image_url base64Image)) VISION_MODELS"

definition textOnlySolve ::
  "provider \<Rightarrow> jstring \<Rightarrow> (js_error + solution option) \<times> chat_request list" where
  "textOnlySolve hf problemText =
     (let req = \<lparr> model = TEXT_LLM, messages = TextPrompt problemText, max_tokens = 1200,
                   timeout_ms = TEXT_TIMEOUT_MS \<rparr>
      in case chatCompletion hf TEXT_LLM (TextPrompt problemText) 1200 TEXT_TIMEOUT_MS of
           Inl err \<Rightarrow> (Inl err, [req])
         | Inr content \<Rightarrow> (parseResponse content problemText, [req]))"

definition unreadable_problem :: jstring where
  "unreadable_problem =
     (js ''The user uploaded an image of a math/science problem but the vision models could not process it. Generate a helpful response explaining that the image could not be read and suggest they try: 1) a clearer photo, 2) better lighting, 3) typing the problem instead.'')"

definition unreadable_steps :: "json list" where
  "unreadable_steps =
     [JString (js ''The AI vision models were unable to process this image.''),
      JString (js ''Try taking a clearer, well-lit photo of the problem.''),
      JString (js ''Make sure the text/equations are clearly visible.''),
      JString (js ''Alternatively, you can type the problem directly.'')]"

definition unreadable_explanation :: jstring where
  "unreadable_explanation =
     (js ''The free-tier AI vision models may be temporarily unavailable or the image quality was insufficient. Please try again or use the text input option.'')"

definition unavailable_message :: jstring where
  "unavailable_message =
     (js ''All AI models are currently unavailable. Please try again in a few minutes.'')"

definition solveFromImage ::
  "provider \<Rightarrow> jstring \<Rightarrow> (js_error + solution) \<times> chat_request list" where
  "solveFromImage hf base64Image =
     (case tryVisionSolve hf base64Image of
        (Some visionResult, calls) \<Rightarrow> (Inr visionResult, calls)
      | (None, calls) \<Rightarrow>
          (case textOnlySolve hf unreadable_problem of
             (Inr (Some fallbackResult), calls') \<Rightarrow>
               (Inr (fallbackResult
                  \<lparr> previewText := JString (js ''Image could not be read''),
                    answer := JString (js ''Could not read image''),
                    steps := JArray unreadable_steps,
                    explanation := JString unreadable_explanation \<rparr>),
                calls @ calls')
           | (Inr None, calls') \<Rightarrow> (Inl (Error unavailable_message), calls @ calls')
           | (Inl err, calls') \<Rightarrow> (Inl (Error unavailable_message), calls @ calls')))"

definition solveFromText ::
  "provider \<Rightarrow> jstring \<Rightarrow> (js_error + solution option) \<times> chat_request list" where
  "solveFromText hf text = textOnlySolve hf text"

section \<open>The route layer\<close>

text \<open>
  A handler receives the configuration, the provider, the parsed request body (\<open>None\<close>
  when the request has none) and gives the response together with the requests made to the
  provider. The wording of the errors the runtime raises itself is the runtime's: it is a
  parameter. What runs ahead of the handlers is modelled after them.
\<close>

record config =
  hfApiKey :: "jstring option"

datatype payload =
    Solved "solution option"
  | Failed jstring jstring

record response =
  status :: nat
  body :: payload

definition message :: "(js_error \<Rightarrow> jstring) \<Rightarrow> js_error \<Rightarrow> jstring" where
  "message wording e =
     (case e of Error m \<Rightarrow> m | Rejected n m \<Rightarrow> m | _ \<Rightarrow> wording e)"

definition MAX_IMAGE_SIZE_BYTES :: nat where
  "MAX_IMAGE_SIZE_BYTES = 10 * 1024 * 1024"

definition key_missing :: "config \<Rightarrow> bool" where
  \<comment> \<open>\<^verbatim>\<open>!config.hfApiKey || config.hfApiKey === 'hf_your_key_here'\<close>\<close>
  "key_missing cfg =
     (case hfApiKey cfg of None \<Rightarrow> True | Some k \<Rightarrow> k = [] \<or> k = (js ''hf_your_key_here''))"

definition field :: "json option \<Rightarrow> jstring \<Rightarrow> js_error + json option" where
  \<comment> \<open>\<^verbatim>\<open>const { key } = req.body\<close>\<close>
  "field b k =
     (case b of
        None \<Rightarrow> Inl (TypeError (js ''req.body''))
      | Some v \<Rightarrow> if v = JNull then Inl (TypeError (js ''req.body'')) else Inr (js_get v k))"

definition strip_data_uri :: "jstring \<Rightarrow> jstring" where
  \<comment> \<open>\<^verbatim>\<open>image.replace(/^data:image\/\w+;base64,/, '')\<close>\<close>
  "strip_data_uri img =
     (case strip_prefix (js ''data:image/'') img of
        None \<Rightarrow> img
      | Some r \<Rightarrow>
          if takeWhile is_word r = [] then img
          else (case strip_prefix (js '';base64,'') (dropWhile is_word r) of
                  None \<Rightarrow> img
                | Some rest \<Rightarrow> rest))"

definition to_fixed_1 :: "rat \<Rightarrow> jstring" where
  \<comment> \<open>\<^verbatim>\<open>x.toFixed(1)\<close> for \<open>x\<close> that is not negative\<close>
  "to_fixed_1 x =
     (let n = nat \<lfloor>x * 10 + 1 / 2\<rfloor>
      in show_nat (n div 10) @ (js ''.'') @ show_nat (n mod 10))"

definition solve_route ::
  "config \<Rightarrow> (js_error \<Rightarrow> jstring) \<Rightarrow> provider \<Rightarrow> json option \<Rightarrow> response \<times> chat_request list" where
  "solve_route cfg wording hf req_body =
     (if key_missing cfg then
        (\<lparr> status = 503,
            body = Failed (js ''Server is not configured. The HuggingFace API key is missing.'')
                     (js ''MISSING_API_KEY'') \<rparr>, [])
      else
        (case field req_body (js ''image'') of
           Inl err \<Rightarrow>
             (\<lparr> status = 500,
                 body = Failed
                   (if message wording err = []
                    then (js ''An unexpected error occurred while processing the image.'')
                    else message wording err)
                   (js ''PROCESSING_ERROR'') \<rparr>, [])
         | Inr image_field \<Rightarrow>
             if \<not> (case image_field of None \<Rightarrow> False | Some v \<Rightarrow> truthy v) then
               (\<lparr> status = 400,
                   body = Failed
                     ((js ''No image provided. Please send a base64-encoded image in the '') @
                      [code (CHR 0x22)] @ (js ''image'') @ [code (CHR 0x22)] @ (js '' field.''))
                     (js ''NO_IMAGE'') \<rparr>, [])
             else
               (case image_field of
                  Some (JString img) \<Rightarrow>
                    (let cleanBase64 = strip_data_uri img;
                         estimatedSize = (of_nat (length cleanBase64 * 3) / 4 :: rat)
                     in if of_nat MAX_IMAGE_SIZE_BYTES < estimatedSize then
                          (\<lparr> status = 413,
                              body = Failed
                                ((js ''Image too large ('') @
                                 to_fixed_1 (estimatedSize / 1024 / 1024) @
                                 (js ''MB). Maximum is 10MB.''))
                                (js ''IMAGE_TOO_LARGE'') \<rparr>, [])
                        else
                          (case solveFromImage hf img of
                             (Inr sol, calls) \<Rightarrow>
                               (\<lparr> status = 200, body = Solved (Some sol) \<rparr>, calls)
                           | (Inl err, calls) \<Rightarrow>
                               (\<lparr> status = 500,
                                   body = Failed
                                     (if message wording err = []
                                      then (js ''An unexpected error occurred while processing the image.'')
                                      else message wording err)
                                     (js ''PROCESSING_ERROR'') \<rparr>, calls)))
                | _ \<Rightarrow>
                    (\<lparr> status = 400,
                        body = Failed (js ''Invalid image format. Expected a base64 string.'')
                                 (js ''INVALID_FORMAT'') \<rparr>, []))))"

definition solve_text_route ::
  "config \<Rightarrow> (js_error \<Rightarrow> jstring) \<Rightarrow> provider \<Rightarrow> json option \<Rightarrow> response \<times> chat_request list" where
  "solve_text_route cfg wording hf req_body =
     (if key_missing cfg then
        (\<lparr> status = 503, body = Failed (js ''API key not configured'') (js ''MISSING_API_KEY'') \<rparr>, [])
      else
        (case field req_body (js ''text'') of
           Inl err \<Rightarrow>
             (\<lparr> status = 500, body = Failed (message wording err) (js ''PROCESSING_ERROR'') \<rparr>, [])
         | Inr (Some (JString txt)) \<Rightarrow>
             if txt = [] \<or> length (trim txt) = 0 then
               (\<lparr> status = 400, body = Failed (js ''No problem text provided.'') (js ''NO_TEXT'') \<rparr>, [])
             else
               (case solveFromText hf (trim txt) of
                  (Inr sol, calls) \<Rightarrow> (\<lparr> status = 200, body = Solved sol \<rparr>, calls)
                | (Inl err, calls) \<Rightarrow>
                    (\<lparr> status = 500,
                        body = Failed (message wording err) (js ''PROCESSING_ERROR'') \<rparr>, calls))
         | Inr _ \<Rightarrow>
             (\<lparr> status = 400, body = Failed (js ''No problem text provided.'') (js ''NO_TEXT'') \<rparr>, [])))"

subsection \<open>Ahead of the handlers\<close>

text \<open>
  The server puts the body parsers, with a limit of \<^verbatim>\<open>15mb\<close>, ahead of the routes, and
  an error middleware behind them. An incoming payload is not read by a parser (the body
  is what the framework leaves), or does not parse, or is read, with its size in bytes, into
  a value (an object or an array). A parser refuses a payload above its limit, or one that
  does not parse, with an error, which the error middleware answers. The request timeout
  is not modelled.
\<close>

datatype incoming =
    NotRead "json option"
  | Malformed
  | Parsed nat json

definition BODY_LIMIT_BYTES :: nat where
  "BODY_LIMIT_BYTES = 15 * 1024 * 1024"

definition internal_error :: response where
  "internal_error =
     \<lparr> status = 500,
       body = Failed (js ''An internal server error occurred.'') (js ''INTERNAL_ERROR'') \<rparr>"

definition post_solve ::
  "config \<Rightarrow> (js_error \<Rightarrow> jstring) \<Rightarrow> provider \<Rightarrow> incoming \<Rightarrow> response \<times> chat_request list" where
  "post_solve cfg wording hf inc =
     (case inc of
        NotRead b \<Rightarrow> solve_route cfg wording hf b
      | Malformed \<Rightarrow> (internal_error, [])
      | Parsed n v \<Rightarrow>
          if BODY_LIMIT_BYTES < n then (internal_error, [])
          else solve_route cfg wording hf (Some v))"

section \<open>The history of the browser\<close>

text \<open>
  The stored history is the list kept under the key \<^verbatim>\<open>logicLensHistory\<close>, \<open>None\<close>
  when the key has no value; a write succeeds, and writing the list and reading it back
  gives the same list. The date and the time come from the clock.
\<close>

record history_item = solution +
  date :: jstring
  timestamp :: int

definition saveToHistory ::
  "history_item list option \<Rightarrow> solution \<Rightarrow> jstring \<Rightarrow> int \<Rightarrow> history_item list option" where
  "saveToHistory stored sol today now =
     (let historyItem =
            \<lparr> previewText = previewText sol, answer = answer sol, steps = steps sol,
              explanation = explanation sol, date = today, timestamp = now \<rparr>;
          history = (case stored of None \<Rightarrow> [] | Some h \<Rightarrow> h);
          history = historyItem # history;
          history = (if 50 < length history then butlast history else history)
      in Some history)"

section \<open>Notions used to state the properties\<close>

text \<open>
  The lines of a text that hold a character other than white space, and the lines that
  hold any character at all.
\<close>

definition nonblank_lines :: "jstring \<Rightarrow> jstring list" where
  "nonblank_lines text =
     filter (\<lambda>l. \<exists>c \<in> set l. \<not> is_js_space c) (split_on (code (CHR 0x0A)) text)"

definition nonempty_lines :: "jstring \<Rightarrow> jstring list" where
  "nonempty_lines text = filter (\<lambda>l. l \<noteq> []) (split_on (code (CHR 0x0A)) text)"

text \<open>
  A vision attempt fails when the call raises or its content has at most ten characters;
  the image stage fails when every configured model does. The requests of the two stages
  and the scripted solution of the fallback stage. A solution has its four fields
  populated when its preview, answer and explanation are truthy (for a text: not empty)
  and its steps are a list.
\<close>

definition vision_attempt_failed :: "provider \<Rightarrow> jstring \<Rightarrow> jstring \<Rightarrow> bool" where
  "vision_attempt_failed hf base64Image mdl =
     (case chatCompletion hf mdl (VisionPrompt (image_url base64Image)) 1200 VISION_TIMEOUT_MS of
        Inl err \<Rightarrow> True
      | Inr content \<Rightarrow> length content \<le> 10)"

definition vision_failed :: "provider \<Rightarrow> jstring \<Rightarrow> bool" where
  "vision_failed hf base64Image = list_all (vision_attempt_failed hf base64Image) VISION_MODELS"

definition vision_request :: "jstring \<Rightarrow> jstring \<Rightarrow> chat_request" where
  "vision_request base64Image mdl =
     \<lparr> model = mdl, messages = VisionPrompt (image_url base64Image), max_tokens = 1200,
       timeout_ms = VISION_TIMEOUT_MS \<rparr>"

definition fallback_request :: chat_request where
  "fallback_request =
     \<lparr> model = TEXT_LLM, messages = TextPrompt unreadable_problem, max_tokens = 1200,
       timeout_ms = TEXT_TIMEOUT_MS \<rparr>"

definition unreadable_solution :: solution where
  "unreadable_solution =
     \<lparr> previewText = JString (js ''Image could not be read''),
       answer = JString (js ''Could not read image''),
       steps = JArray unreadable_steps,
       explanation = JString unreadable_explanation \<rparr>"

definition populated :: "solution \<Rightarrow> bool" where
  "populated s =
     (truthy (previewText s) \<and> truthy (answer s)
      \<and> (case steps s of JArray xs \<Rightarrow> True | _ \<Rightarrow> False) \<and> truthy (explanation s))"

fun error_code :: "response \<Rightarrow> jstring option" where
  "error_code r = (case body r of Failed m c \<Rightarrow> Some c | Solved s \<Rightarrow> None)"

text \<open>The item that a save stores, the stored list, and a run of saves.\<close>

definition history_entry :: "solution \<times> jstring \<times> int \<Rightarrow> history_item" where
  "history_entry e =
     (case e of (sol, today, now) \<Rightarrow>
        \<lparr> previewText = previewText sol, answer = answer sol, steps = steps sol,
          explanation = explanation sol, date = today, timestamp = now \<rparr>)"

definition stored_list :: "history_item list option \<Rightarrow> history_item list" where
  "stored_list stored = (case stored of None \<Rightarrow> [] | Some h \<Rightarrow> h)"

definition save_all ::
  "history_item list option \<Rightarrow> (solution \<times> jstring \<times> int) list \<Rightarrow> history_item list option" where
  "save_all stored saves =
     fold (\<lambda>e st. case e of (sol, today, now) \<Rightarrow> saveToHistory st sol today now) saves stored"

text \<open>
  A lower bound on the number of tokens that the reading machine has consumed: an object
  of \<open>n\<close> members takes at least \<open>1 + 4 * n\<close> tokens.
\<close>

fun weight :: "json \<Rightarrow> nat" where
  "weight (JObject kvs) = 1 + 4 * length kvs"
| "weight v = 1"

fun mode_weight :: "mode \<Rightarrow> nat" where
  "mode_weight Value = 0"
| "mode_weight ValueOrEnd = 0"
| "mode_weight (Key kvs) = 1 + 4 * length kvs"
| "mode_weight KeyOrEnd = 1"
| "mode_weight (Colon kvs k) = 2 + 4 * length kvs"
| "mode_weight (Complete v) = weight v"

fun frame_weight :: "frame \<Rightarrow> nat" where
  "frame_weight (InArr xs) = 0"
| "frame_weight (InObj kvs k) = 3 + 4 * length kvs"

definition state_weight :: "mode \<times> frame list \<Rightarrow> nat" where
  "state_weight s = mode_weight (fst s) + sum_list (map frame_weight (snd s))"

text \<open>
  Concrete inputs: a text of the provider, providers (one whose vision model answers with
  that text after a greeting; one whose vision model times out and whose text model
  answers with empty content, or with a sentence; one that is down), configurations, a
  wording for the errors of the runtime, an image of 13981014 characters and one of
  16000000, an object whose answer is the empty text, a text of three lines whose second
  line is a blank, and 51 saves.
\<close>

definition example_object :: jstring where
  \<open>example_object =
     (js ''{"previewText":"2+2","answer":"4","steps":["a","b"],"explanation":"x"}'')\<close>

definition example_solution :: solution where
  "example_solution =
     \<lparr> previewText = JString (js ''2+2''), answer = JString (js ''4''),
       steps = JArray [JString (js ''a''), JString (js ''b'')], explanation = JString (js ''x'') \<rparr>"

definition quoted :: "jstring \<Rightarrow> jstring" where
  "quoted s =
     [code (CHR 0x22)] @
     concat (map (\<lambda>c. if c = code (CHR 0x22) \<or> c = code (CHR 0x5C) then [code (CHR 0x5C), c] else [c]) s) @
     [code (CHR 0x22)]"

definition chat_body :: "jstring \<Rightarrow> jstring" where
  \<open>chat_body content = (js ''{"choices":[{"message":{"content":'') @ quoted content @ (js ''}}]}'')\<close>

definition reading_provider :: provider where
  "reading_provider r =
     (if model r = (js ''Qwen/Qwen2.5-VL-7B-Instruct'')
      then Responded 200 (chat_body ((js ''Sure! '') @ example_object))
      else Threw (Rejected (js ''TypeError'') (js ''fetch failed'')))"

definition silent_provider :: provider where
  "silent_provider r =
     (if model r = TEXT_LLM then Responded 200 (chat_body [])
      else Threw (Rejected (js ''AbortError'') (js ''This operation was aborted'')))"

definition helpful_provider :: provider where
  "helpful_provider r =
     (if model r = TEXT_LLM then Responded 200 (chat_body (js ''Please retake the photo.''))
      else Threw (Rejected (js ''AbortError'') (js ''This operation was aborted'')))"

definition down_provider :: provider where
  "down_provider r = Responded 503 (js ''Service Unavailable'')"

definition example_config :: config where
  "example_config = \<lparr> hfApiKey = Some (js ''hf_live_key'') \<rparr>"

definition no_key_config :: config where
  "no_key_config = \<lparr> hfApiKey = None \<rparr>"

definition example_wording :: "js_error \<Rightarrow> jstring" where
  "example_wording e = error_name e"

definition big_image :: jstring where
  "big_image = replicate 13981014 (code (CHR ''A''))"

definition huge_image :: jstring where
  "huge_image = replicate 16000000 (code (CHR ''A''))"

definition empty_answer_object :: jstring where
  \<open>empty_answer_object =
     js ''{"previewText":"2+2","answer":"","steps":["a","b"],"explanation":"x"}''\<close>

definition example_lines :: jstring where
  "example_lines = (js ''a'') @ [code (CHR 0x0A)] @ (js '' '') @ [code (CHR 0x0A)] @ (js ''b'')"

definition example_saves :: "(solution \<times> jstring \<times> int) list" where
  "example_saves = map (\<lambda>i. (example_solution, (js ''3/11/2026''), int i)) [0..<51]"

section \<open>Lemmas\<close>

subsection \<open>The parser on examples\<close>

lemma JSON_parse_examples:
  \<open>JSON_parse (js ''{"a":1,"b":[true,false,null],"a":"x"}'') =
     Some (JObject [(js ''a'', JString (js ''x'')),
                    (js ''b'', JArray [JBool True, JBool False, JNull])])\<close>
  \<open>JSON_parse (js '' [-2.50e3, 0.0, 12] '') =
     Some (JArray [JNumber (- 250) 1, JNumber 0 (- 1), JNumber 12 0])\<close>
  \<open>JSON_parse ((js ''"a'') @ [code (CHR 0x5C)] @ (js ''n'') @ [code (CHR 0x5C)] @ (js ''u0041"'')) =
     Some (JString [code (CHR ''a''), code (CHR 0x0A), code (CHR ''A'')])\<close>
  \<open>JSON_parse (js ''{"'' @ [code (CHR 0x5C)] @ js ''u0161nswer":"4"}'') =
     Some (JObject [(0x161 # js ''nswer'', JString (js ''4''))])\<close>
  \<open>JSON_parse (js ''[1,]'') = None\<close>
  \<open>JSON_parse (js ''{"a":1,}'') = None\<close>
  \<open>JSON_parse (js ''{"a":1} }'') = None\<close>
  \<open>JSON_parse (js ''{a:1}'') = None\<close>
  \<open>JSON_parse (js ''01'') = None\<close>
  \<open>JSON_parse (js ''1.'') = None\<close>
  \<open>JSON_parse (js ''tru'') = None\<close>
  \<open>JSON_parse (js ''"abc'') = None\<close>
  \<open>JSON_parse (js '''') = None\<close>
  \<open>JSON_parse (js ''1 2'') = None\<close>
  by code_simp+

subsection \<open>Lines and the brace match\<close>

lemma trim_empty_iff: "trim l = [] \<longleftrightarrow> (\<forall>c \<in> set l. is_js_space c)"
proof
  assume "trim l = []"
  then have all: "\<forall>c \<in> set (dropWhile is_js_space l). is_js_space c"
    by (simp add: trim_def dropWhile_eq_Nil_conv)
  have "dropWhile is_js_space l = []"
  proof (rule ccontr)
    assume ne: "dropWhile is_js_space l \<noteq> []"
    then have "\<not> is_js_space (hd (dropWhile is_js_space l))" by (rule hd_dropWhile)
    moreover have "hd (dropWhile is_js_space l) \<in> set (dropWhile is_js_space l)"
      using ne by simp
    ultimately show False using all by blast
  qed
  then show "\<forall>c \<in> set l. is_js_space c" by (simp add: dropWhile_eq_Nil_conv)
next
  assume "\<forall>c \<in> set l. is_js_space c"
  then have d: "dropWhile is_js_space l = []" by (simp add: dropWhile_eq_Nil_conv)
  show "trim l = []" unfolding trim_def d by simp
qed

lemma fallback_steps:
  "steps (fallback_solution text fp) = JArray (map JString (nonblank_lines text))"
proof -
  have "filter (\<lambda>l. 0 < length (trim l)) (split_on (code (CHR 0x0A)) text) = nonblank_lines text"
    unfolding nonblank_lines_def by (rule filter_cong) (auto simp: trim_empty_iff)
  then show ?thesis by (simp add: fallback_solution_def)
qed

lemma nonblank_lines_sub:
  "nonblank_lines text = filter (\<lambda>l. \<exists>c \<in> set l. \<not> is_js_space c) (nonempty_lines text)"
  unfolding nonblank_lines_def nonempty_lines_def
  by (simp, rule filter_cong) auto

lemma split_on_not_Nil: "split_on d s \<noteq> []"
  by (induction s) (auto split: list.splits)

lemma split_on_join:
  "concat (map (\<lambda>l. d # l) (split_on d s)) = d # s"
proof (induction s)
  case Nil
  show ?case by simp
next
  case (Cons c s)
  show ?case
  proof (cases "c = d")
    case True
    with Cons show ?thesis by simp
  next
    case False
    obtain l ls where sp: "split_on d s = l # ls"
      using split_on_not_Nil [of d s] by (cases "split_on d s") auto
    with Cons False show ?thesis by simp
  qed
qed

lemma split_on_no_sep: "l \<in> set (split_on d s) \<Longrightarrow> d \<notin> set l"
proof (induction s arbitrary: l)
  case Nil
  then show ?case by simp
next
  case (Cons c s)
  obtain l' ls where sp: "split_on d s = l' # ls"
    using split_on_not_Nil [of d s] by (cases "split_on d s") auto
  show ?case
  proof (cases "c = d")
    case True
    with Cons show ?thesis by auto
  next
    case False
    with Cons.prems sp have "l = c # l' \<or> l \<in> set ls" by simp
    then show ?thesis
    proof
      assume "l = c # l'"
      moreover have "d \<notin> set l'" using Cons.IH [of l'] sp by simp
      ultimately show ?thesis using False by simp
    next
      assume "l \<in> set ls"
      then show ?thesis using Cons.IH [of l] sp by simp
    qed
  qed
qed

lemma match_braces_None_iff:
  "match_braces text = None \<longleftrightarrow>
     \<not> (\<exists>a b c. text = a @ code (CHR ''{'') # b @ code (CHR ''}'') # c)"
proof -
  let ?P = "\<lambda>c. c \<noteq> code (CHR ''{'')"
  let ?r = "dropWhile ?P text"
  have key: "(\<exists>a b c. text = a @ code (CHR ''{'') # b @ code (CHR ''}'') # c) \<longleftrightarrow> code (CHR ''}'') \<in> set ?r"
  proof (rule iffI [rotated])
    assume in_r: "code (CHR ''}'') \<in> set ?r"
    have ne: "?r \<noteq> []"
    proof
      assume "?r = []"
      then have "set ?r = {}" by (simp only: set_empty)
      with in_r show False by simp
    qed
    from ne have "\<not> ?P (hd ?r)" by (rule hd_dropWhile)
    then obtain r' where r: "?r = code (CHR ''{'') # r'" using ne by (cases ?r) auto
    with in_r have "code (CHR ''}'') \<in> set r'" by auto
    then obtain b c where "r' = b @ code (CHR ''}'') # c" by (auto dest: split_list)
    with r have "text = takeWhile ?P text @ code (CHR ''{'') # b @ code (CHR ''}'') # c"
      using takeWhile_dropWhile_id [of ?P "text"] by simp
    then show "\<exists>a b c. text = a @ code (CHR ''{'') # b @ code (CHR ''}'') # c" by blast
  next
    assume "\<exists>a b c. text = a @ code (CHR ''{'') # b @ code (CHR ''}'') # c"
    then obtain a b c where t: "text = a @ code (CHR ''{'') # b @ code (CHR ''}'') # c" by blast
    show "code (CHR ''}'') \<in> set ?r"
    proof (cases "\<forall>x \<in> set a. ?P x")
      case True
      then have "?r = code (CHR ''{'') # b @ code (CHR ''}'') # c"
        unfolding t by (simp add: dropWhile_append2)
      then show ?thesis by simp
    next
      case False
      then have "?r = dropWhile ?P a @ code (CHR ''{'') # b @ code (CHR ''}'') # c"
        unfolding t by (subst dropWhile_append1) auto
      then show ?thesis by simp
    qed
  qed
  show ?thesis unfolding match_braces_def Let_def key by simp
qed

lemma match_braces_Some:
  assumes "match_braces text = Some m"
  shows "\<exists>a b c. text = a @ m @ c \<and> m = code (CHR ''{'') # b @ [code (CHR ''}'')]
           \<and> code (CHR ''{'') \<notin> set a \<and> code (CHR ''}'') \<notin> set c"
proof -
  let ?P = "\<lambda>c. c \<noteq> code (CHR ''{'')"
  let ?Q = "\<lambda>c. c \<noteq> code (CHR ''}'')"
  let ?r = "dropWhile ?P text"
  from assms have in_r: "code (CHR ''}'') \<in> set ?r" and m: "m = rev (dropWhile ?Q (rev ?r))"
    by (auto simp: match_braces_def Let_def split: if_splits)
  let ?c = "rev (takeWhile ?Q (rev ?r))"
  have r: "?r = m @ ?c"
  proof -
    have "rev (takeWhile ?Q (rev ?r) @ dropWhile ?Q (rev ?r)) = rev (rev ?r)"
      by (simp only: takeWhile_dropWhile_id)
    then have "rev (dropWhile ?Q (rev ?r)) @ rev (takeWhile ?Q (rev ?r)) = ?r"
      by (simp only: rev_append rev_rev_ident)
    then show ?thesis unfolding m by simp
  qed
  have whole: "text = takeWhile ?P text @ m @ ?c"
    using takeWhile_dropWhile_id [of ?P "text"] r by simp
  have a: "code (CHR ''{'') \<notin> set (takeWhile ?P text)" by (auto dest: set_takeWhileD)
  have c: "code (CHR ''}'') \<notin> set ?c" by (auto dest: set_takeWhileD)
  have dne: "dropWhile ?Q (rev ?r) \<noteq> []"
    using in_r by (auto simp: dropWhile_eq_Nil_conv)
  then have "\<not> ?Q (hd (dropWhile ?Q (rev ?r)))" by (rule hd_dropWhile)
  then have lastm: "last m = code (CHR ''}'')" using dne unfolding m by (simp add: last_rev)
  have mne: "m \<noteq> []" using dne unfolding m by simp
  have rne: "?r \<noteq> []"
  proof
    assume "?r = []"
    then have "set ?r = {}" by (simp only: set_empty)
    with in_r show False by simp
  qed
  then have "\<not> ?P (hd ?r)" by (rule hd_dropWhile)
  then have "hd ?r = code (CHR ''{'')" by simp
  then have hdm: "hd m = code (CHR ''{'')" using r mne by (metis hd_append2)
  obtain m' where m': "m = code (CHR ''{'') # m'" using mne hdm by (cases m) auto
  have "m' \<noteq> []" using lastm m' by auto
  then obtain b where "m' = b @ [code (CHR ''}'')]" using lastm m'
    by (metis append_butlast_last_id last_ConsR)
  with m' whole a c show ?thesis by blast
qed

lemma match_braces_length:
  "match_braces text = Some m \<Longrightarrow> length m \<le> length text"
proof -
  assume "match_braces text = Some m"
  then have "m = rev (dropWhile (\<lambda>c. c \<noteq> code (CHR ''}'')) (rev (dropWhile (\<lambda>c. c \<noteq> code (CHR ''{'')) text)))"
    by (auto simp: match_braces_def Let_def split: if_splits)
  moreover have "length (dropWhile (\<lambda>c. c \<noteq> code (CHR ''}'')) (rev (dropWhile (\<lambda>c. c \<noteq> code (CHR ''{'')) text)))
        \<le> length (rev (dropWhile (\<lambda>c. c \<noteq> code (CHR ''{'')) text))" by (rule length_dropWhile_le)
  moreover have "length (dropWhile (\<lambda>c. c \<noteq> code (CHR ''{'')) text) \<le> length text"
    by (rule length_dropWhile_le)
  ultimately show ?thesis by simp
qed

subsection \<open>The size of a parsed object\<close>

lemma weight_pos: "1 \<le> weight v"
  by (cases v) auto

lemma length_update_le: "length (AList.update k v kvs) \<le> Suc (length kvs)"
  by (induction kvs) auto

lemma value_start_weight:
  "value_start t st = Some s' \<Longrightarrow> state_weight s' \<le> sum_list (map frame_weight st) + 1"
  by (cases t) (auto simp: state_weight_def)

lemma step_weight:
  assumes "step s t = Some s'"
  shows "state_weight s' \<le> state_weight s + 1"
proof -
  obtain m st where s: "s = (m, st)" by (cases s) auto
  show ?thesis
  proof (cases m)
    case Value
    with assms s show ?thesis
      using value_start_weight [of t st s'] by (simp add: state_weight_def)
  next
    case ValueOrEnd
    show ?thesis
    proof (cases "\<exists>xs st'. st = InArr xs # st' \<and> t = TRBrack")
      case True
      with assms s ValueOrEnd show ?thesis by (auto simp: state_weight_def)
    next
      case False
      then have "step (ValueOrEnd, st) t = value_start t st"
        by (cases "((ValueOrEnd, st), t)" rule: step.cases) auto
      with assms s ValueOrEnd show ?thesis
        using value_start_weight [of t st s'] by (simp add: state_weight_def)
    qed
  next
    case (Key kvs)
    with assms s show ?thesis by (cases t) (auto simp: state_weight_def)
  next
    case KeyOrEnd
    with assms s show ?thesis by (cases t) (auto simp: state_weight_def)
  next
    case (Colon kvs k)
    with assms s show ?thesis by (cases t) (auto simp: state_weight_def)
  next
    case (Complete v)
    show ?thesis
    proof (cases st)
      case Nil
      with assms s Complete show ?thesis by (cases t) auto
    next
      case (Cons f st')
      show ?thesis
      proof (cases f)
        case (InArr xs)
        with assms s Complete Cons show ?thesis
          using weight_pos [of v] by (cases t) (auto simp: state_weight_def)
      next
        case (InObj kvs k)
        with assms s Complete Cons show ?thesis
          using weight_pos [of v] length_update_le [of k v kvs]
          by (cases t) (auto simp: state_weight_def)
      qed
    qed
  qed
qed

lemma run_weight:
  "run s ts = Some v \<Longrightarrow> weight v \<le> state_weight s + length ts"
proof (induction ts arbitrary: s)
  case Nil
  then have "s = (Complete v, [])" by (auto elim: run.elims)
  then show ?case by (simp add: state_weight_def)
next
  case (Cons t ts)
  then obtain s' where st: "step s t = Some s'" and r: "run s' ts = Some v"
    by (cases "step s t") auto
  from Cons.IH [OF r] step_weight [OF st] show ?case by simp
qed

lemma tokenize_length: "tokenize s = Some ts \<Longrightarrow> length ts \<le> length s"
proof (induction s arbitrary: ts rule: tokenize.induct)
  case 1
  then show ?case by simp
next
  case (2 c cs)
  from "2.prems" obtain t rest ts' where nt: "next_token c cs = Some (t, rest)"
    and tr: "tokenize rest = Some ts'"
    and ts: "ts = (case t of None \<Rightarrow> ts' | Some tok \<Rightarrow> tok # ts')"
    by (auto split: option.splits)
  have "length ts' \<le> length rest" using "2.IH" [OF nt refl tr] .
  moreover have "length rest \<le> length cs" using nt by (rule next_token_rest)
  ultimately show ?case using ts by (auto split: option.splits)
qed

lemma JSON_parse_object_length:
  assumes "JSON_parse m = Some (JObject kvs)"
  shows "1 + 4 * length kvs \<le> length m"
proof -
  from assms obtain ts where t: "tokenize m = Some ts" and r: "run (Value, []) ts = Some (JObject kvs)"
    by (auto simp: JSON_parse_def split: option.splits)
  from run_weight [OF r] have "1 + 4 * length kvs \<le> length ts" by (simp add: state_weight_def)
  with tokenize_length [OF t] show ?thesis by simp
qed

lemma four_keys_length:
  assumes "map_of kvs (js ''previewText'') = Some p" and "map_of kvs (js ''answer'') = Some a"
    and "map_of kvs (js ''steps'') = Some ss" and "map_of kvs (js ''explanation'') = Some e"
  shows "4 \<le> length kvs"
proof -
  let ?K = "{(js ''previewText''), (js ''answer''), (js ''steps''), (js ''explanation'')}"
  have "?K \<subseteq> dom (map_of kvs)" using assms by auto
  then have "?K \<subseteq> fst ` set kvs" by (simp only: dom_map_of_conv_image_fst)
  then have "card ?K \<le> card (fst ` set kvs)" by (intro card_mono) auto
  also have "\<dots> \<le> card (set kvs)" by (rule card_image_le) simp
  also have "\<dots> \<le> length kvs" by (rule card_length)
  finally show ?thesis by simp
qed

subsection \<open>Populated solutions\<close>

lemma js_or_truthy: "truthy b \<Longrightarrow> truthy (js_or a b)"
  by (simp add: js_or_def split: option.splits)

lemma fallback_populated: "text \<noteq> [] \<Longrightarrow> populated (fallback_solution text fp)"
  by (simp add: populated_def fallback_solution_def js_or_truthy)

lemma parse_attempt_populated:
  assumes "text \<noteq> []" and "parse_attempt text fp (fallback_solution text fp) = Inr (Some s)"
  shows "populated s"
proof -
  have fb: "populated (fallback_solution text fp)" using assms(1) by (rule fallback_populated)
  obtain m where m: "match_braces text = Some m"
    using assms(2) by (cases "match_braces text") (simp_all add: parse_attempt_def)
  obtain parsed where p: "JSON_parse m = Some parsed"
    using assms(2) m by (cases "JSON_parse m") (simp_all add: parse_attempt_def)
  have "parsed \<noteq> JNull"
    using assms(2) m p by (auto simp: parse_attempt_def)
  then have s: "s = \<lparr> previewText =
                js_or (js_get parsed (js ''previewText''))
                  (js_or (Some (JString fp)) (JString (js ''Problem''))),
              answer = js_or (js_get parsed (js ''answer'')) (answer (fallback_solution text fp)),
              steps =
                (case js_get parsed (js ''steps'') of
                   Some (JArray xs) \<Rightarrow> JArray xs
                 | _ \<Rightarrow> steps (fallback_solution text fp)),
              explanation =
                js_or (js_get parsed (js ''explanation''))
                  (explanation (fallback_solution text fp)) \<rparr>"
    using assms(2) m p by (simp add: parse_attempt_def)
  have "truthy (previewText s)" unfolding s by (simp add: js_or_truthy)
  moreover have "truthy (answer s)" unfolding s using fb by (simp add: js_or_truthy populated_def)
  moreover have "truthy (explanation s)"
    unfolding s using fb by (simp add: js_or_truthy populated_def)
  moreover have "case steps s of JArray xs \<Rightarrow> True | _ \<Rightarrow> False"
    unfolding s using fb by (auto simp: populated_def split: option.splits json.splits)
  ultimately show ?thesis by (simp add: populated_def)
qed

lemma parseResponse_populated:
  assumes "parseResponse text fp = Inr (Some s)"
  shows "populated s"
proof -
  have ne: "text \<noteq> []" using assms by (auto simp: parseResponse_def)
  show ?thesis
  proof (cases "parse_attempt text fp (fallback_solution text fp)")
    case (Inl err)
    with assms ne show ?thesis by (auto simp: parseResponse_def fallback_populated)
  next
    case (Inr r)
    show ?thesis
    proof (cases r)
      case None
      with Inr assms ne show ?thesis by (auto simp: parseResponse_def fallback_populated)
    next
      case (Some s')
      with Inr assms ne have "s = s'" by (simp add: parseResponse_def)
      with Some Inr ne show ?thesis using parse_attempt_populated by simp
    qed
  qed
qed

lemma parseResponse_Some_content:
  "content \<noteq> [] \<Longrightarrow> \<exists>s. parseResponse content fp = Inr (Some s)"
  by (auto simp: parseResponse_def Let_def split: sum.splits option.splits)

lemma try_models_populated:
  "try_models hf msgs models = (Some s, calls) \<Longrightarrow> populated s"
proof (induction models arbitrary: calls)
  case Nil
  then show ?case by simp
next
  case (Cons mdl models)
  obtain r cs where rest: "try_models hf msgs models = (r, cs)" by (cases "try_models hf msgs models")
  show ?case
  proof (cases "chatCompletion hf mdl msgs 1200 VISION_TIMEOUT_MS")
    case (Inl err)
    with Cons.prems rest have "try_models hf msgs models = (Some s, cs)" by simp
    then show ?thesis by (rule Cons.IH)
  next
    case (Inr content)
    show ?thesis
    proof (cases "content \<noteq> [] \<and> 10 < length content")
      case False
      with Inr Cons.prems rest have "try_models hf msgs models = (Some s, cs)"
        by (auto split: if_splits)
      then show ?thesis by (rule Cons.IH)
    next
      case True
      show ?thesis
      proof (cases "parseResponse content []")
        case (Inl err)
        with True Inr Cons.prems rest have "try_models hf msgs models = (Some s, cs)" by simp
        then show ?thesis by (rule Cons.IH)
      next
        case pr: (Inr r')
        with True Inr Cons.prems have "r' = Some s" by simp
        with pr show ?thesis using parseResponse_populated by simp
      qed
    qed
  qed
qed

lemma unreadable_populated: "populated unreadable_solution"
  by (simp add: populated_def unreadable_solution_def unreadable_explanation_def)

lemma try_models_failed:
  "list_all (vision_attempt_failed hf img) models \<Longrightarrow>
     try_models hf (VisionPrompt (image_url img)) models = (None, map (vision_request img) models)"
proof (induction models)
  case Nil
  show ?case by simp
next
  case (Cons mdl models)
  then have ih: "try_models hf (VisionPrompt (image_url img)) models =
                   (None, map (vision_request img) models)"
    and f: "vision_attempt_failed hf img mdl" by simp_all
  show ?case
  proof (cases "chatCompletion hf mdl (VisionPrompt (image_url img)) 1200 VISION_TIMEOUT_MS")
    case (Inl err)
    then show ?thesis by (simp add: ih vision_request_def)
  next
    case (Inr content)
    with f have "length content \<le> 10" by (simp add: vision_attempt_failed_def)
    with Inr show ?thesis by (simp add: ih vision_request_def)
  qed
qed

lemma tryVisionSolve_failed:
  "vision_failed hf img \<Longrightarrow>
     tryVisionSolve hf img = (None, map (vision_request img) VISION_MODELS)"
  by (simp add: vision_failed_def tryVisionSolve_def try_models_failed)

lemma solveFromImage_error:
  assumes "solveFromImage hf img = (Inl err, calls)"
  shows "err = Error unavailable_message"
  using assms
  by (auto simp: solveFromImage_def split: prod.splits option.splits sum.splits)

lemma solveFromImage_populated:
  assumes "solveFromImage hf img = (Inr s, calls)"
  shows "populated s"
proof (cases "tryVisionSolve hf img")
  case (Pair r cs)
  show ?thesis
  proof (cases r)
    case (Some v)
    with Pair assms have "s = v" by (simp add: solveFromImage_def)
    with Some Pair show ?thesis
      using try_models_populated by (simp add: tryVisionSolve_def)
  next
    case None
    with Pair assms have "s = unreadable_solution"
      by (auto simp: solveFromImage_def unreadable_solution_def
               split: prod.splits sum.splits option.splits)
    then show ?thesis by (simp add: unreadable_populated)
  qed
qed

lemma solveFromText_populated:
  "solveFromText hf txt = (Inr (Some s), calls) \<Longrightarrow> populated s"
  by (auto simp: solveFromText_def textOnlySolve_def Let_def split: sum.splits
           dest: parseResponse_populated)

subsection \<open>The size check and the history\<close>

lemma strip_data_uri_Nil: "strip_data_uri [] = []"
  by (simp add: strip_data_uri_def)

lemma strip_data_uri_A: "strip_data_uri (code (CHR ''A'') # s) = code (CHR ''A'') # s"
  by (simp add: strip_data_uri_def)

lemma strip_data_uri_big_image: "strip_data_uri big_image = big_image"
proof -
  have "(13981014::nat) = Suc 13981013" by simp
  then have eq: "big_image = code (CHR ''A'') # replicate 13981013 (code (CHR ''A''))"
    unfolding big_image_def by (simp only: replicate_Suc)
  show ?thesis unfolding eq by (rule strip_data_uri_A)
qed

lemma strip_data_uri_huge_image: "strip_data_uri huge_image = huge_image"
proof -
  have "(16000000::nat) = Suc 15999999" by simp
  then have eq: "huge_image = code (CHR ''A'') # replicate 15999999 (code (CHR ''A''))"
    unfolding huge_image_def by (simp only: replicate_Suc)
  show ?thesis unfolding eq by (rule strip_data_uri_A)
qed

lemma huge_image_size:
  "of_nat MAX_IMAGE_SIZE_BYTES < (of_nat (length (strip_data_uri huge_image) * 3) / 4 :: rat)"
  unfolding strip_data_uri_huge_image
  by (simp add: MAX_IMAGE_SIZE_BYTES_def huge_image_def)

lemma big_image_size:
  "of_nat MAX_IMAGE_SIZE_BYTES < (of_nat (length (strip_data_uri big_image) * 3) / 4 :: rat)"
  unfolding strip_data_uri_big_image
  by (simp add: MAX_IMAGE_SIZE_BYTES_def big_image_def)

lemma saveToHistory_eq:
  "saveToHistory stored sol today now =
     Some (if 50 \<le> length (stored_list stored)
           then butlast (history_entry (sol, today, now) # stored_list stored)
           else history_entry (sol, today, now) # stored_list stored)"
  by (simp add: saveToHistory_def history_entry_def stored_list_def Let_def)

lemma saveToHistory_take:
  assumes "length (stored_list stored) \<le> 50"
  shows "saveToHistory stored sol today now =
           Some (take 50 (history_entry (sol, today, now) # stored_list stored))"
proof (cases "length (stored_list stored) = 50")
  case True
  then have "butlast (history_entry (sol, today, now) # stored_list stored) =
               take 50 (history_entry (sol, today, now) # stored_list stored)"
    by (simp add: butlast_conv_take)
  with True show ?thesis by (simp add: saveToHistory_eq)
next
  case False
  with assms have "length (stored_list stored) < 50" by simp
  then show ?thesis by (simp add: saveToHistory_eq)
qed

lemma save_all_snoc:
  "save_all stored (saves @ [(sol, today, now)]) =
     saveToHistory (save_all stored saves) sol today now"
  by (simp add: save_all_def)

lemma stored_list_save_all:
  assumes "stored_list stored = []"
  shows "stored_list (save_all stored saves) = take 50 (map history_entry (rev saves))"
proof (induction saves rule: rev_induct)
  case Nil
  show ?case using assms by (simp add: save_all_def)
next
  case (snoc e saves)
  obtain sol today now where e: "e = (sol, today, now)" by (cases e) auto
  have len: "length (stored_list (save_all stored saves)) \<le> 50"
    using snoc.IH by simp
  have "save_all stored (saves @ [e]) =
          Some (take 50 (history_entry e # take 50 (map history_entry (rev saves))))"
    unfolding e save_all_snoc using saveToHistory_take [OF len] snoc.IH by simp
  also have "take 50 (history_entry e # take 50 (map history_entry (rev saves))) =
               take 50 (map history_entry (rev (saves @ [e])))"
    by (simp add: take_Cons')
  finally show ?case by (simp add: stored_list_def)
qed

lemma save_all_Some:
  "saves \<noteq> [] \<Longrightarrow> \<exists>h. save_all stored saves = Some h"
proof (induction saves rule: rev_induct)
  case Nil
  then show ?case by simp
next
  case (snoc e saves)
  obtain sol today now where e: "e = (sol, today, now)" by (cases e) auto
  show ?case unfolding e save_all_snoc by (simp add: saveToHistory_eq)
qed

section \<open>The claims\<close>

text \<open>
  C1. Claim: every solution returned to the boundary (the value resolved by
  \<^verbatim>\<open>solveFromImage\<close> or \<^verbatim>\<open>solveFromText\<close> and sent as the body of a successful
  response) has its four fields populated, never absent. Every value that
  \<^verbatim>\<open>solveFromImage\<close> resolves to has them (\<open>solveFromImage_populated\<close>), and so does
  every value of the text path that is not null (\<open>solveFromText_populated\<close>). The text
  path itself does not keep the claim: when the text model
  answers with empty content, the normalizer gives null, \<^verbatim>\<open>solveFromText\<close> resolves to
  it without the check that \<^verbatim>\<open>solveFromImage\<close> makes, and the route sends null with
  status 200.
\<close>

theorem solveFromText_null_solution:
  "solveFromText silent_provider (js ''2+2'') =
     (Inr None, [\<lparr> model = TEXT_LLM, messages = TextPrompt (js ''2+2''), max_tokens = 1200,
                   timeout_ms = TEXT_TIMEOUT_MS \<rparr>])
   \<and> fst (solve_text_route example_config example_wording silent_provider
            (Some (JObject [(js ''text'', JString (js ''2+2''))]))) =
       \<lparr> status = 200, body = Solved None \<rparr>"
  by code_simp

text \<open>
  C2, as amended. For every raw text in which the span from the first opening brace to
  the last closing brace is a well-formed JSON object whose \<^verbatim>\<open>previewText\<close>,
  \<^verbatim>\<open>answer\<close> and \<^verbatim>\<open>explanation\<close> are truthy (a non-empty string is) and whose
  \<^verbatim>\<open>steps\<close> is a list, the normalizer returns exactly those four values; and when the
  first vision model returns such a text, the orchestrator returns that object and makes
  no other request, so the fallback stage is not entered.
\<close>

theorem parsed_fields_returned:
  assumes "match_braces text = Some m"
    and "JSON_parse m = Some (JObject kvs)"
    and "map_of kvs (js ''previewText'') = Some p" and "truthy p"
    and "map_of kvs (js ''answer'') = Some a" and "truthy a"
    and "map_of kvs (js ''steps'') = Some (JArray ss)"
    and "map_of kvs (js ''explanation'') = Some e" and "truthy e"
  shows "parseResponse text fp =
           Inr (Some \<lparr> previewText = p, answer = a, steps = JArray ss, explanation = e \<rparr>)
         \<and> (chatCompletion hf (hd VISION_MODELS) (VisionPrompt (image_url img)) 1200
               VISION_TIMEOUT_MS = Inr text \<longrightarrow>
             solveFromImage hf img =
               (Inr \<lparr> previewText = p, answer = a, steps = JArray ss, explanation = e \<rparr>,
                [vision_request img (hd VISION_MODELS)]))"
proof (intro conjI impI)
  have ne: "text \<noteq> []" using assms(1) by (auto simp: match_braces_def)
  have "parse_attempt text fp' (fallback_solution text fp') =
          Inr (Some \<lparr> previewText = p, answer = a, steps = JArray ss, explanation = e \<rparr>)"
    for fp'
    using assms by (simp add: parse_attempt_def js_get_def js_or_def)
  then have pr: "parseResponse text fp' =
      Inr (Some \<lparr> previewText = p, answer = a, steps = JArray ss, explanation = e \<rparr>)" for fp'
    using ne by (simp add: parseResponse_def)
  show "parseResponse text fp =
      Inr (Some \<lparr> previewText = p, answer = a, steps = JArray ss, explanation = e \<rparr>)"
    by (rule pr)
  assume cc: "chatCompletion hf (hd VISION_MODELS) (VisionPrompt (image_url img)) 1200
                VISION_TIMEOUT_MS = Inr text"
  have "4 \<le> length kvs" using assms(3,5,7,8) by (rule four_keys_length)
  moreover have "1 + 4 * length kvs \<le> length m" using assms(2) by (rule JSON_parse_object_length)
  moreover have "length m \<le> length text" using assms(1) by (rule match_braces_length)
  ultimately have long: "10 < length text" by simp
  have "tryVisionSolve hf img =
      (Some \<lparr> previewText = p, answer = a, steps = JArray ss, explanation = e \<rparr>,
       [vision_request img (hd VISION_MODELS)])"
    using cc long ne pr [of "[]"]
    by (simp add: tryVisionSolve_def VISION_MODELS_def vision_request_def)
  then show "solveFromImage hf img =
      (Inr \<lparr> previewText = p, answer = a, steps = JArray ss, explanation = e \<rparr>,
       [vision_request img (hd VISION_MODELS)])"
    by (simp add: solveFromImage_def)
qed

theorem parsed_fields_returned_witness:
  "parseResponse ((js ''Sure! '') @ example_object) [] = Inr (Some example_solution)
   \<and> solveFromImage reading_provider (js ''AAAA'') =
       (Inr example_solution, [vision_request (js ''AAAA'') (js ''Qwen/Qwen2.5-VL-7B-Instruct'')])"
proof -
  have m: "match_braces ((js ''Sure! '') @ example_object) = Some example_object"
    by code_simp
  have j: "JSON_parse example_object =
             Some (JObject [(js ''previewText'', JString (js ''2+2'')), (js ''answer'', JString (js ''4'')),
                            (js ''steps'', JArray [JString (js ''a''), JString (js ''b'')]),
                            (js ''explanation'', JString (js ''x''))])"
    by code_simp
  have c: "chatCompletion reading_provider (hd VISION_MODELS) (VisionPrompt (image_url (js ''AAAA'')))
             1200 VISION_TIMEOUT_MS = Inr ((js ''Sure! '') @ example_object)"
    by code_simp
  have "parseResponse ((js ''Sure! '') @ example_object) [] =
          Inr (Some \<lparr> previewText = JString (js ''2+2''), answer = JString (js ''4''),
                      steps = JArray [JString (js ''a''), JString (js ''b'')],
                      explanation = JString (js ''x'') \<rparr>)
        \<and> (chatCompletion reading_provider (hd VISION_MODELS)
              (VisionPrompt (image_url (js ''AAAA''))) 1200 VISION_TIMEOUT_MS =
              Inr ((js ''Sure! '') @ example_object) \<longrightarrow>
            solveFromImage reading_provider (js ''AAAA'') =
              (Inr \<lparr> previewText = JString (js ''2+2''), answer = JString (js ''4''),
                      steps = JArray [JString (js ''a''), JString (js ''b'')],
                      explanation = JString (js ''x'') \<rparr>,
               [vision_request (js ''AAAA'') (hd VISION_MODELS)]))"
    by (rule parsed_fields_returned [OF m j]) simp_all
  with c show ?thesis by (simp add: example_solution_def VISION_MODELS_def)
qed

text \<open>
  C2, as stated, fails twice. The first text contains the well-formed object
  \<open>example_object\<close>, followed by a blank and a closing brace; the match runs to that last
  brace, does not parse, and the normalizer returns the fallback, whose answer is the
  placeholder and not the \<^verbatim>\<open>4\<close> of the object. The second text is a well-formed
  object whose answer is a string, the empty one; the normalizer returns the placeholder
  answer and not that string.
\<close>

theorem greedy_match_counterexample:
  "JSON_parse example_object =
     Some (JObject [(js ''previewText'', JString (js ''2+2'')), (js ''answer'', JString (js ''4'')),
                    (js ''steps'', JArray [JString (js ''a''), JString (js ''b'')]),
                    (js ''explanation'', JString (js ''x''))])
   \<and> parseResponse (example_object @ js '' }'') [] =
       Inr (Some (fallback_solution (example_object @ js '' }'') []))
   \<and> answer (fallback_solution (example_object @ js '' }'') []) =
       JString (js ''See explanation below'')
   \<and> match_braces empty_answer_object = Some empty_answer_object
   \<and> JSON_parse empty_answer_object =
       Some (JObject [(js ''previewText'', JString (js ''2+2'')), (js ''answer'', JString []),
                      (js ''steps'', JArray [JString (js ''a''), JString (js ''b'')]),
                      (js ''explanation'', JString (js ''x''))])
   \<and> parseResponse empty_answer_object [] =
       Inr (Some \<lparr> previewText = JString (js ''2+2''),
                   answer = JString (js ''See explanation below''),
                   steps = JArray [JString (js ''a''), JString (js ''b'')],
                   explanation = JString (js ''x'') \<rparr>)"
  by code_simp

text \<open>
  C3, as amended. Whenever every vision attempt fails and the call to the text model
  succeeds with content that is not empty, \<^verbatim>\<open>solveFromImage\<close> returns the scripted
  solution (preview \<^verbatim>\<open>Image could not be read\<close>, four fixed steps, fixed answer and
  explanation), whatever that content is, after one request per vision model and one to
  the text model.
\<close>

theorem fallback_solution_is_fixed:
  assumes "vision_failed hf img"
    and "chatCompletion hf TEXT_LLM (TextPrompt unreadable_problem) 1200 TEXT_TIMEOUT_MS
           = Inr content"
    and "content \<noteq> []"
  shows "solveFromImage hf img =
           (Inr unreadable_solution, map (vision_request img) VISION_MODELS @ [fallback_request])
         \<and> previewText unreadable_solution = JString (js ''Image could not be read'')
         \<and> (\<exists>l1 l2 l3 l4. steps unreadable_solution = JArray [l1, l2, l3, l4])"
proof -
  obtain s where s: "parseResponse content unreadable_problem = Inr (Some s)"
    using parseResponse_Some_content [OF assms(3)] by blast
  have "textOnlySolve hf unreadable_problem = (Inr (Some s), [fallback_request])"
    using assms(2) s by (simp add: textOnlySolve_def fallback_request_def)
  then have "solveFromImage hf img =
      (Inr unreadable_solution, map (vision_request img) VISION_MODELS @ [fallback_request])"
    using tryVisionSolve_failed [OF assms(1)]
    by (simp add: solveFromImage_def unreadable_solution_def)
  then show ?thesis by (simp add: unreadable_solution_def unreadable_steps_def)
qed

theorem fallback_solution_is_fixed_witness:
  "vision_failed helpful_provider (js ''AAAA'')
   \<and> chatCompletion helpful_provider TEXT_LLM (TextPrompt unreadable_problem) 1200
         TEXT_TIMEOUT_MS = Inr (js ''Please retake the photo.'')
   \<and> solveFromImage helpful_provider (js ''AAAA'') =
       (Inr unreadable_solution,
        [vision_request (js ''AAAA'') (js ''Qwen/Qwen2.5-VL-7B-Instruct''), fallback_request])"
proof -
  have v: "vision_failed helpful_provider (js ''AAAA'')"
    by code_simp
  have c: "chatCompletion helpful_provider TEXT_LLM (TextPrompt unreadable_problem) 1200
             TEXT_TIMEOUT_MS = Inr (js ''Please retake the photo.'')"
    by code_simp
  have n: "(js ''Please retake the photo.'') \<noteq> []" by simp
  from fallback_solution_is_fixed [OF v c n] v c show ?thesis
    by (simp add: VISION_MODELS_def)
qed

text \<open>
  C3, as stated, fails. The vision model times out and the call to the text model
  succeeds, with empty content: \<^verbatim>\<open>solveFromImage\<close> raises the terminal error.
\<close>

theorem empty_fallback_content_counterexample:
  "vision_failed silent_provider (js ''AAAA'')
   \<and> chatCompletion silent_provider TEXT_LLM (TextPrompt unreadable_problem) 1200
         TEXT_TIMEOUT_MS = Inr []
   \<and> fst (solveFromImage silent_provider (js ''AAAA'')) = Inl (Error unavailable_message)"
  by code_simp

text \<open>
  C4. If every vision attempt fails and the call to the text model fails too,
  \<^verbatim>\<open>solveFromImage\<close> raises an error whose message starts with
  \<^verbatim>\<open>All AI models are currently unavailable.\<close>; and whenever the orchestrator,
  called by the \<^verbatim>\<open>/solve\<close> route, raises an error, the response is 500 with that
  error's message and the code \<^verbatim>\<open>PROCESSING_ERROR\<close>.
\<close>

theorem all_models_unavailable:
  "(vision_failed hf img \<longrightarrow>
      chatCompletion hf TEXT_LLM (TextPrompt unreadable_problem) 1200 TEXT_TIMEOUT_MS = Inl err \<longrightarrow>
      fst (solveFromImage hf img) = Inl (Error unavailable_message))
   \<and> starts_with unavailable_message (js ''All AI models are currently unavailable.'')
   \<and> (\<not> key_missing cfg \<longrightarrow> field req_body (js ''image'') = Inr (Some (JString img)) \<longrightarrow>
        img \<noteq> [] \<longrightarrow>
        \<not> of_nat MAX_IMAGE_SIZE_BYTES < (of_nat (length (strip_data_uri img) * 3) / 4 :: rat) \<longrightarrow>
        solveFromImage hf img = (Inl e, calls) \<longrightarrow>
        solve_route cfg wording hf req_body =
          (\<lparr> status = 500, body = Failed (message wording e) (js ''PROCESSING_ERROR'') \<rparr>, calls)
        \<and> message wording e = unavailable_message)"
proof (intro conjI impI)
  assume vf: "vision_failed hf img"
    and tf: "chatCompletion hf TEXT_LLM (TextPrompt unreadable_problem) 1200 TEXT_TIMEOUT_MS = Inl err"
  have "textOnlySolve hf unreadable_problem = (Inl err, [fallback_request])"
    using tf by (simp add: textOnlySolve_def fallback_request_def)
  then show "fst (solveFromImage hf img) = Inl (Error unavailable_message)"
    using tryVisionSolve_failed [OF vf] by (simp add: solveFromImage_def)
next
  show "starts_with unavailable_message (js ''All AI models are currently unavailable.'')"
    by (simp add: unavailable_message_def starts_with_def)
next
  assume k: "\<not> key_missing cfg" and f: "field req_body (js ''image'') = Inr (Some (JString img))"
    and ne: "img \<noteq> []"
    and sz: "\<not> of_nat MAX_IMAGE_SIZE_BYTES < (of_nat (length (strip_data_uri img) * 3) / 4 :: rat)"
    and so: "solveFromImage hf img = (Inl e, calls)"
  have e: "e = Error unavailable_message" using so by (rule solveFromImage_error)
  then have m: "message wording e = unavailable_message" by (simp add: message_def)
  have mne: "unavailable_message \<noteq> []" by (simp add: unavailable_message_def)
  show "solve_route cfg wording hf req_body =
          (\<lparr> status = 500, body = Failed (message wording e) (js ''PROCESSING_ERROR'') \<rparr>, calls)"
    using k f ne sz so m mne by (simp add: solve_route_def Let_def)
  show "message wording e = unavailable_message" by (rule m)
qed

theorem all_models_unavailable_witness:
  "vision_failed down_provider (js ''AAAA'')
   \<and> chatCompletion down_provider TEXT_LLM (TextPrompt unreadable_problem) 1200
         TEXT_TIMEOUT_MS = Inl (Error (js ''HF API 503: Service Unavailable''))
   \<and> fst (solveFromImage down_provider (js ''AAAA'')) = Inl (Error unavailable_message)
   \<and> solve_route example_config example_wording down_provider
         (Some (JObject [(js ''image'', JString (js ''AAAA''))])) =
       (\<lparr> status = 500, body = Failed unavailable_message (js ''PROCESSING_ERROR'') \<rparr>,
        [vision_request (js ''AAAA'') (js ''Qwen/Qwen2.5-VL-7B-Instruct''), fallback_request])"
proof -
  have v: "vision_failed down_provider (js ''AAAA'')"
    by code_simp
  have c: "chatCompletion down_provider TEXT_LLM (TextPrompt unreadable_problem) 1200
             TEXT_TIMEOUT_MS = Inl (Error (js ''HF API 503: Service Unavailable''))"
    by code_simp
  have k: "\<not> key_missing example_config"
    by code_simp
  have f: "field (Some (JObject [(js ''image'', JString (js ''AAAA''))])) (js ''image'') =
             Inr (Some (JString (js ''AAAA'')))"
    by code_simp
  have n: "(js ''AAAA'') \<noteq> []" by simp
  have z: "\<not> of_nat MAX_IMAGE_SIZE_BYTES <
             (of_nat (length (strip_data_uri (js ''AAAA'')) * 3) / 4 :: rat)"
    by code_simp
  have s: "solveFromImage down_provider (js ''AAAA'') =
             (Inl (Error unavailable_message),
              [vision_request (js ''AAAA'') (js ''Qwen/Qwen2.5-VL-7B-Instruct''), fallback_request])"
    by code_simp
  note T = all_models_unavailable
    [where hf = down_provider and img = "(js ''AAAA'')"
       and err = "Error (js ''HF API 503: Service Unavailable'')" and cfg = example_config
       and req_body = "Some (JObject [(js ''image'', JString (js ''AAAA''))])"
       and e = "Error unavailable_message" and wording = example_wording
       and calls = "[vision_request (js ''AAAA'') (js ''Qwen/Qwen2.5-VL-7B-Instruct''), fallback_request]"]
  from T v c have a: "fst (solveFromImage down_provider (js ''AAAA'')) = Inl (Error unavailable_message)"
    by blast
  from T k f n z s have
    "solve_route example_config example_wording down_provider
       (Some (JObject [(js ''image'', JString (js ''AAAA''))])) =
     (\<lparr> status = 500,
         body = Failed (message example_wording (Error unavailable_message))
                  (js ''PROCESSING_ERROR'') \<rparr>,
      [vision_request (js ''AAAA'') (js ''Qwen/Qwen2.5-VL-7B-Instruct''), fallback_request])
     \<and> message example_wording (Error unavailable_message) = unavailable_message"
    by blast
  with v c a show ?thesis by simp
qed




text \<open>
  C6, as amended. For every request to \<^verbatim>\<open>POST /solve\<close> that gets past the body
  parser (a payload of at most 15 MB that parses) and the credential gate (a configured
  credential), and whose \<^verbatim>\<open>image\<close> string, after the data-URI prefix is stripped, has
  an estimated size (its length times 3 divided by 4) above 10 MiB, the response is 413
  with code \<^verbatim>\<open>IMAGE_TOO_LARGE\<close> and no request goes to the provider, so the
  orchestrator is not invoked.
\<close>

theorem oversized_image_rejected:
  assumes "n \<le> BODY_LIMIT_BYTES" and "\<not> key_missing cfg"
    and "js_get b (js ''image'') = Some (JString img)"
    and "of_nat MAX_IMAGE_SIZE_BYTES < (of_nat (length (strip_data_uri img) * 3) / 4 :: rat)"
  shows "\<exists>msg. post_solve cfg wording hf (Parsed n b) =
           (\<lparr> status = 413, body = Failed msg (js ''IMAGE_TOO_LARGE'') \<rparr>, [])"
proof -
  have "b \<noteq> JNull" using assms(3) by (auto simp: js_get_def)
  then have f: "field (Some b) (js ''image'') = Inr (Some (JString img))"
    using assms(3) by (simp add: field_def)
  have "img \<noteq> []"
  proof
    assume "img = []"
    with assms(4) show False by (simp add: strip_data_uri_Nil)
  qed
  then have "\<exists>msg. solve_route cfg wording hf (Some b) =
           (\<lparr> status = 413, body = Failed msg (js ''IMAGE_TOO_LARGE'') \<rparr>, [])"
    using assms(2,4) f by (simp add: solve_route_def Let_def)
  then show ?thesis using assms(1) by (simp add: post_solve_def)
qed

theorem oversized_image_rejected_witness:
  "13981026 \<le> BODY_LIMIT_BYTES
   \<and> of_nat MAX_IMAGE_SIZE_BYTES < (of_nat (length (strip_data_uri big_image) * 3) / 4 :: rat)
   \<and> (\<exists>msg. post_solve example_config example_wording down_provider
            (Parsed 13981026 (JObject [(js ''image'', JString big_image)])) =
          (\<lparr> status = 413, body = Failed msg (js ''IMAGE_TOO_LARGE'') \<rparr>, []))"
proof -
  have l: "13981026 \<le> BODY_LIMIT_BYTES" by (simp add: BODY_LIMIT_BYTES_def)
  have k: "\<not> key_missing example_config" by (simp add: key_missing_def example_config_def)
  have g: "js_get (JObject [(js ''image'', JString big_image)]) (js ''image'') =
             Some (JString big_image)"
    by (simp add: js_get_def)
  from oversized_image_rejected [OF l k g big_image_size, of example_wording down_provider]
  show ?thesis using l big_image_size by simp
qed

text \<open>
  C6, as stated, fails. With a configured credential, a request whose image has 16000000
  characters, in a payload of 16000012 bytes, is refused by the body parser and answered
  500 with code \<^verbatim>\<open>INTERNAL_ERROR\<close>, not 413. And without a configured credential, a
  request whose image is above the bound and whose payload the parser accepts is answered
  503 with code \<^verbatim>\<open>MISSING_API_KEY\<close>, not 413.
\<close>

theorem oversized_payload_counterexample:
  "\<not> key_missing example_config
   \<and> of_nat MAX_IMAGE_SIZE_BYTES < (of_nat (length (strip_data_uri huge_image) * 3) / 4 :: rat)
   \<and> post_solve example_config example_wording down_provider
         (Parsed 16000012 (JObject [(js ''image'', JString huge_image)])) =
       (\<lparr> status = 500,
           body = Failed (js ''An internal server error occurred.'') (js ''INTERNAL_ERROR'') \<rparr>,
        [])
   \<and> of_nat MAX_IMAGE_SIZE_BYTES < (of_nat (length (strip_data_uri big_image) * 3) / 4 :: rat)
   \<and> status (fst (post_solve no_key_config example_wording down_provider
                    (Parsed 13981026 (JObject [(js ''image'', JString big_image)])))) = 503
   \<and> error_code (fst (post_solve no_key_config example_wording down_provider
                    (Parsed 13981026 (JObject [(js ''image'', JString big_image)])))) =
       Some (js ''MISSING_API_KEY'')"
proof -
  have k: "\<not> key_missing example_config" by (simp add: key_missing_def example_config_def)
  have a: "post_solve example_config example_wording down_provider
             (Parsed 16000012 (JObject [(js ''image'', JString huge_image)])) =
           (\<lparr> status = 500,
               body = Failed (js ''An internal server error occurred.'')
                        (js ''INTERNAL_ERROR'') \<rparr>, [])"
    by (simp add: post_solve_def BODY_LIMIT_BYTES_def internal_error_def)
  have b: "fst (post_solve no_key_config example_wording down_provider
                  (Parsed 13981026 (JObject [(js ''image'', JString big_image)]))) =
           \<lparr> status = 503,
             body = Failed (js ''Server is not configured. The HuggingFace API key is missing.'')
                      (js ''MISSING_API_KEY'') \<rparr>"
    by (simp add: post_solve_def BODY_LIMIT_BYTES_def solve_route_def key_missing_def
                  no_key_config_def)
  have c: "status (fst (post_solve no_key_config example_wording down_provider
                    (Parsed 13981026 (JObject [(js ''image'', JString big_image)])))) = 503"
    using b by simp
  have d: "error_code (fst (post_solve no_key_config example_wording down_provider
                    (Parsed 13981026 (JObject [(js ''image'', JString big_image)])))) =
           Some (js ''MISSING_API_KEY'')"
    using b by simp
  show ?thesis by (intro conjI k huge_image_size a big_image_size c d)
qed



text \<open>
  C8, as amended. For every raw text that is not empty and has no opening brace followed
  later by a closing brace (\<open>match_braces_None_iff\<close>), the normalizer returns a solution
  whose steps are the lines of the text that hold a character other than white space, in
  their original order, and whose explanation is the full text.
\<close>

theorem no_braces_gives_lines:
  assumes "text \<noteq> []" and "match_braces text = None"
  shows "\<exists>s. parseResponse text fp = Inr (Some s)
           \<and> steps s = JArray (map JString (nonblank_lines text))
           \<and> explanation s = JString text"
proof -
  have "parse_attempt text fp (fallback_solution text fp) = Inr None"
    using assms(2) by (simp add: parse_attempt_def)
  then have "parseResponse text fp = Inr (Some (fallback_solution text fp))"
    using assms(1) by (simp add: parseResponse_def)
  moreover have "explanation (fallback_solution text fp) = JString text"
    by (simp add: fallback_solution_def)
  ultimately show ?thesis using fallback_steps by blast
qed

theorem no_braces_gives_lines_witness:
  "example_lines \<noteq> [] \<and> match_braces example_lines = None
   \<and> (\<exists>s. parseResponse example_lines [] = Inr (Some s)
          \<and> steps s = JArray [JString (js ''a''), JString (js ''b'')]
          \<and> explanation s = JString example_lines)"
proof -
  have ne: "example_lines \<noteq> []" by code_simp
  have m: "match_braces example_lines = None" by code_simp
  have l: "nonblank_lines example_lines = [(js ''a''), (js ''b'')]" by code_simp
  from no_braces_gives_lines [OF ne m, of "[]"] l ne m show ?thesis by simp
qed

text \<open>
  C8, as stated, fails twice. The empty text has no braces, and the normalizer returns
  nothing for it. The text of the lines \<^verbatim>\<open>a\<close>, a single blank, and \<^verbatim>\<open>b\<close> has no
  braces, and the steps returned are \<^verbatim>\<open>a\<close> and \<^verbatim>\<open>b\<close>: the second line is not
  empty and is left out.
\<close>

theorem no_braces_counterexample:
  "match_braces [] = None \<and> parseResponse [] [] = Inr None
   \<and> match_braces example_lines = None
   \<and> nonempty_lines example_lines = [(js ''a''), (js '' ''), (js ''b'')]
   \<and> parseResponse example_lines [] = Inr (Some (fallback_solution example_lines []))
   \<and> steps (fallback_solution example_lines []) = JArray [JString (js ''a''), JString (js ''b'')]"
  by code_simp

text \<open>
  C9. Starting from an empty history (no stored value, or a stored empty list), after 51
  saves the stored list has exactly 50 entries, and the last saved solution is first: the
  list holds the last 50 saves, newest first, the first save having been evicted.
\<close>

theorem history_after_51_saves:
  assumes "stored_list stored = []" and "length saves = 51"
  shows "\<exists>h. save_all stored saves = Some h \<and> length h = 50
           \<and> hd h = history_entry (last saves)
           \<and> h = map history_entry (rev (tl saves))"
proof -
  from assms(2) have ne: "saves \<noteq> []" by auto
  then obtain e rest where sv: "saves = e # rest" by (cases saves) auto
  with assms(2) have lr: "length rest = 50" by simp
  obtain h where h: "save_all stored saves = Some h" using save_all_Some [OF ne] by blast
  have "h = take 50 (map history_entry (rev saves))"
    using stored_list_save_all [OF assms(1), of saves] h by (simp add: stored_list_def)
  then have hv: "h = map history_entry (rev rest)" using lr by (simp add: sv)
  have rne: "rest \<noteq> []" using lr by auto
  have "hd (map history_entry (rev rest)) = history_entry (last rest)"
    using rne by (simp add: hd_map hd_rev)
  then have "hd h = history_entry (last saves)" using rne hv by (simp add: sv)
  with h hv lr show ?thesis by (simp add: sv)
qed

theorem history_after_51_saves_witness:
  "stored_list None = [] \<and> length example_saves = 51
   \<and> (\<exists>h. save_all None example_saves = Some h \<and> length h = 50
          \<and> timestamp (hd h) = 50)"
proof -
  have s: "stored_list None = []" by (simp add: stored_list_def)
  have l: "length example_saves = 51" by (simp add: example_saves_def)
  have "last example_saves = (example_solution, (js ''3/11/2026''), 50)"
    by (simp add: example_saves_def last_map)
  then have t: "timestamp (history_entry (last example_saves)) = 50"
    by (simp add: history_entry_def)
  from history_after_51_saves [OF s l] obtain h where
    "save_all None example_saves = Some h" "length h = 50"
    "hd h = history_entry (last example_saves)"
    by blast
  with t s l show ?thesis by simp
qed

text \<open>
  C10. A save evicts at most one entry. The new item goes to the front; a stored list of
  fewer than 50 entries is kept whole behind it, and from a stored list of 50 entries or
  more exactly one entry, the last, is removed and the others are kept in their order. So
  the length after a save is the length before plus one, or the length before when that
  would exceed 50; the bound of 50 is kept from a list of at most 50 entries, and a list
  that already holds more than 50 entries is still over the bound after a save.
\<close>

theorem save_evicts_at_most_one:
  "\<exists>h. saveToHistory stored sol today now = Some h
     \<and> length h = (if 50 < length (stored_list stored) + 1
                    then length (stored_list stored) else length (stored_list stored) + 1)
     \<and> (length (stored_list stored) < 50 \<longrightarrow>
          h = history_entry (sol, today, now) # stored_list stored)
     \<and> (50 \<le> length (stored_list stored) \<longrightarrow>
          h = history_entry (sol, today, now) # butlast (stored_list stored)
          \<and> h @ [last (stored_list stored)] =
              history_entry (sol, today, now) # stored_list stored)
     \<and> length (stored_list stored) + 1 - length h \<le> 1
     \<and> (length (stored_list stored) \<le> 50 \<longrightarrow> length h \<le> 50)
     \<and> (50 < length (stored_list stored) \<longrightarrow> 50 < length h)"
proof (cases "50 \<le> length (stored_list stored)")
  case True
  then have ne: "stored_list stored \<noteq> []" by auto
  then have "butlast (history_entry (sol, today, now) # stored_list stored) =
               history_entry (sol, today, now) # butlast (stored_list stored)"
    by simp
  with True ne show ?thesis by (simp add: saveToHistory_eq)
next
  case False
  then show ?thesis by (simp add: saveToHistory_eq)
qed

theorem save_evicts_at_most_one_witness:
  "50 < length (stored_list (Some (map history_entry example_saves)))
   \<and> saveToHistory (Some (map history_entry example_saves)) example_solution
         (js ''3/11/2026'') 51 =
       Some (history_entry (example_solution, js ''3/11/2026'', 51)
             # butlast (map history_entry example_saves))
   \<and> length (stored_list None) < 50
   \<and> saveToHistory None example_solution (js ''3/11/2026'') 0 =
       Some [history_entry (example_solution, js ''3/11/2026'', 0)]"
proof -
  have l: "length (stored_list (Some (map history_entry example_saves))) = 51"
    by (simp add: stored_list_def example_saves_def)
  have s: "stored_list (Some (map history_entry example_saves)) =
             map history_entry example_saves"
    by (simp add: stored_list_def)
  have n: "stored_list None = []" by (simp add: stored_list_def)
  from save_evicts_at_most_one
         [of "Some (map history_entry example_saves)" example_solution "js ''3/11/2026''" 51] l
  have a: "saveToHistory (Some (map history_entry example_saves)) example_solution
             (js ''3/11/2026'') 51 =
           Some (history_entry (example_solution, js ''3/11/2026'', 51)
                 # butlast (map history_entry example_saves))"
    by (auto simp: s)
  from save_evicts_at_most_one [of None example_solution "js ''3/11/2026''" 0] n
  have b: "saveToHistory None example_solution (js ''3/11/2026'') 0 =
             Some [history_entry (example_solution, js ''3/11/2026'', 0)]"
    by auto
  from l n a b show ?thesis by simp
qed

end
